theory Spec2Isabelle
  imports Complex_Main
begin

section \<open>JavaScript strings\<close>

text \<open>
  A JavaScript string is a sequence of UTF-16 code units; a code unit is modelled as a
  natural number. \<open>lit\<close> turns an Isabelle string literal (ASCII) into such a sequence.
\<close>

type_synonym jsstring = "nat list"

definition lit :: "string \<Rightarrow> jsstring" where
  "lit s = map of_char s"

text \<open>
  \<open>String.prototype.toLowerCase\<close>. On a string of ASCII code units the result is the
  string with \<open>A\<close>..\<open>Z\<close> replaced by \<open>a\<close>..\<open>z\<close>. For any other string the Unicode case
  tables decide; they are not part of the repository, so that part of the built-in is
  the parameter \<open>ul\<close>.
\<close>

definition lower_ascii :: "nat \<Rightarrow> nat" where
  "lower_ascii c = (if 65 \<le> c \<and> c \<le> 90 then c + 32 else c)"

definition toLowerCase :: "(jsstring \<Rightarrow> jsstring) \<Rightarrow> jsstring \<Rightarrow> jsstring" where
  "toLowerCase ul s = (if list_all (\<lambda>c. c < 128) s then map lower_ascii s else ul s)"

text \<open>\<open>s.replace(/ /g, '_')\<close>: every space (code unit 32) becomes an underscore (95).\<close>

definition replace_spaces :: "jsstring \<Rightarrow> jsstring" where
  "replace_spaces s = map (\<lambda>c. if c = 32 then 95 else c) s"

section \<open>The voxel list and the placement operation\<close>

text \<open>
  A voxel is the object \<open>{x, y, z, type}\<close> pushed by \<open>addBlock\<close>. The fields carry the
  prefix \<open>v\<close> so that \<open>x\<close>, \<open>y\<close> and \<open>z\<close> stay available as variable names.
\<close>

record voxel =
  vx :: int
  vy :: int
  vz :: int
  vtype :: jsstring

text \<open>
  The coordinates are block positions: integers. The code holds them in double
  precision, which is exact for integers up to \<open>2^53\<close> in magnitude; the properties
  below that compute with coordinates state the bound they rely on.

  The \<open>type\<close> argument of \<open>addBlock\<close> is untyped: any value of the language can be
  passed. \<open>Undefined\<close> is also what the parameter holds when the argument is left out.
  A number is finite, an infinity or \<open>NaN\<close>; \<open>-0\<close> and \<open>0\<close> are both \<open>Finite 0\<close>.
  \<open>Str s\<close> is the string \<open>s\<close> and \<open>String_object s\<close> the object \<open>new String(s)\<close>, which
  has the methods of a string. \<open>Object\<close> stands for every other object, array and
  function without a method \<open>toLowerCase\<close>; an object that defines a method of this
  name itself is not represented.
\<close>

datatype number = Finite real | PlusInfinity | MinusInfinity | NaN

datatype type_arg =
    Undefined | Null | Boolean bool | Number number | BigInt int | Str jsstring | Symbol
  | String_object jsstring | Object

text \<open>
  Truthiness (\<open>ToBoolean\<close>): \<open>undefined\<close>, \<open>null\<close>, \<open>false\<close>, \<open>0\<close>, \<open>NaN\<close>, \<open>0n\<close> and the
  empty string are falsy, every other value is truthy, every object included.
\<close>

definition truthy :: "type_arg \<Rightarrow> bool" where
  "truthy t =
     (case t of
        Undefined \<Rightarrow> False
      | Null \<Rightarrow> False
      | Boolean b \<Rightarrow> b
      | Number n \<Rightarrow> (case n of Finite r \<Rightarrow> r \<noteq> 0 | PlusInfinity \<Rightarrow> True
                      | MinusInfinity \<Rightarrow> True | NaN \<Rightarrow> False)
      | BigInt i \<Rightarrow> i \<noteq> 0
      | Str s \<Rightarrow> s \<noteq> []
      | Symbol \<Rightarrow> True
      | String_object s \<Rightarrow> True
      | Object \<Rightarrow> True)"

text \<open>\<open>type || 'stone'\<close>: the argument when it is truthy, otherwise \<open>'stone'\<close>.\<close>

definition or_stone :: "type_arg \<Rightarrow> type_arg" where
  "or_stone t = (if truthy t then t else Str (lit ''stone''))"

text \<open>
  What a call can throw: the \<open>TypeError\<close> of the language, or whatever code that the
  instructions supply throws.
\<close>

datatype error = TypeError | Thrown

text \<open>
  \<open>voxels.push(v)\<close> looks the method up on the array. \<open>Array_push\<close> is the built-in
  \<open>Array.prototype.push\<close> on an ordinary array, which \<open>voxels\<close> is unless the
  instructions change it: they can assign a function to \<open>voxels.push\<close>, or freeze the
  array, after which the built-in throws. A method is given by the array it leaves, or
  the error it throws.
\<close>

type_synonym push_method = "voxel list \<Rightarrow> voxel \<Rightarrow> error + voxel list"

definition Array_push :: push_method where
  "Array_push voxels v = Inr (voxels @ [v])"

text \<open>
  \<^verbatim>\<open>function addBlock(x, y, z, type) {
       type = (type || 'stone').toLowerCase().replace(/ /g, '_');
       voxels.push({x, y, z, type}); }\<close>
  The global array \<open>voxels\<close> is passed in and returned, together with its method
  \<open>push\<close>. A string and a \<open>String\<close> object have the method \<open>toLowerCase\<close>, which
  returns a string. On any other truthy value \<open>.toLowerCase\<close> is \<open>undefined\<close>, calling it
  throws a \<open>TypeError\<close>, and the statement with \<open>voxels.push\<close> is not reached.
\<close>

definition addBlock ::
  "(jsstring \<Rightarrow> jsstring) \<Rightarrow> push_method \<Rightarrow> int \<Rightarrow> int \<Rightarrow> int \<Rightarrow> type_arg \<Rightarrow> voxel list
     \<Rightarrow> error + voxel list" where
  "addBlock ul push x y z t voxels =
     (case or_stone t of
        Str s \<Rightarrow>
          push voxels \<lparr>vx = x, vy = y, vz = z, vtype = replace_spaces (toLowerCase ul s)\<rparr>
      | String_object s \<Rightarrow>
          push voxels \<lparr>vx = x, vy = y, vz = z, vtype = replace_spaces (toLowerCase ul s)\<rparr>
      | _ \<Rightarrow> Inl TypeError)"

section \<open>The environment message handler\<close>

text \<open>
  Numbers of the handler are modelled as real numbers. The sun, the moon and the
  light-shaft mesh are created by consecutive statements of \<open>init\<close>; they form one
  lighting rig, which the document holds once \<open>init\<close> has reached that point
  (\<open>sunLight\<close> is then truthy).
\<close>

type_synonym vec3 = "real \<times> real \<times> real"

datatype colour = Hex nat | HSL real real real

record rig =
  sun_position :: vec3
  moon_position :: vec3
  sun_intensity :: real
  moon_intensity :: real
  godray_position :: vec3
  godray_visible :: bool
  godray_opacity :: real
  background :: colour
  fog_colour :: colour

record document =
  lighting :: "rig option"
  panel_display_none :: bool

datatype message = ToggleInstructions | Environment real real | Unrecognised

text \<open>\<open>const angle = (time * Math.PI * 2) - Math.PI/2; const sy = Math.sin(angle) * radius\<close>\<close>

definition sun_angle :: "real \<Rightarrow> real" where
  "sun_angle time = (time * pi * 2) - pi / 2"

definition sun_x :: "real \<Rightarrow> real" where
  "sun_x time = cos (sun_angle time) * 120"

definition sun_y :: "real \<Rightarrow> real" where
  "sun_y time = sin (sun_angle time) * 120"

text \<open>\<open>const isDay = sy > -10\<close>\<close>

definition isDay :: "real \<Rightarrow> bool" where
  "isDay time = (sun_y time > - 10)"

text \<open>The \<open>if\<close>/\<open>else if\<close> chain of \<open>sky.setHSL\<close>, in the order of the source.\<close>

definition sky_band :: "real \<Rightarrow> colour" where
  "sky_band time =
     (if time < 0.1 then HSL 0.05 0.8 0.5
      else if time < 0.4 then HSL 0.6 0.7 0.8
      else if time < 0.55 then HSL 0.85 0.6 0.6
      else if time < 0.9 then HSL 0.65 0.5 0.05
      else HSL 0.05 0.8 0.5)"

text \<open>The bands as the comments of the source name them.\<close>

definition dawn_band :: colour where
  "dawn_band = HSL 0.05 0.8 0.5"
definition day_band :: colour where
  "day_band = HSL 0.6 0.7 0.8"
definition sunset_band :: colour where
  "sunset_band = HSL 0.85 0.6 0.6"
definition night_band :: colour where
  "night_band = HSL 0.65 0.5 0.05"
definition sunrise_band :: colour where
  "sunrise_band = HSL 0.05 0.8 0.5"

definition environment :: "real \<Rightarrow> real \<Rightarrow> rig \<Rightarrow> rig" where
  "environment time godRayInt r =
     (let sx = sun_x time; sy = sun_y time; sky = sky_band time in
      r\<lparr>sun_position := (sx, sy, 20),
        moon_position := (- sx, - sy, 20),
        sun_intensity := (if isDay time then 1.2 else 0),
        moon_intensity := (if isDay time then 0 else 0.5),
        godray_position := (sx, sy, 20),
        godray_visible := (sy > 0),
        godray_opacity := (if sy > 0 then godRayInt * 0.3 else 0),
        background := sky,
        fog_colour := sky\<rparr>)"

text \<open>
  The \<open>message\<close> listener: \<open>toggleInstructions\<close> flips the panel between \<open>none\<close> and
  \<open>flex\<close>; \<open>environment\<close> is handled only when \<open>sunLight\<close> exists; anything else is
  ignored.
\<close>

definition on_message :: "message \<Rightarrow> document \<Rightarrow> document" where
  "on_message m d =
     (case m of
        ToggleInstructions \<Rightarrow> d\<lparr>panel_display_none := \<not> panel_display_none d\<rparr>
      | Environment time godRayInt \<Rightarrow>
          (case lighting d of
             None \<Rightarrow> d
           | Some r \<Rightarrow> d\<lparr>lighting := Some (environment time godRayInt r)\<rparr>)
      | Unrecognised \<Rightarrow> d)"

text \<open>The rig as \<open>init\<close> creates it: sun at intensity 1.2, moon at 0.5, sky \<open>0x9AD3FF\<close>.\<close>

definition initial_rig :: rig where
  "initial_rig =
     \<lparr>sun_position = (50, 80, 30), moon_position = (- 50, - 80, - 30),
      sun_intensity = 1.2, moon_intensity = 0.5,
      godray_position = (50, 80, 30), godray_visible = True, godray_opacity = 0,
      background = Hex 0x9AD3FF, fog_colour = Hex 0x9AD3FF\<rparr>"

section \<open>Camera framing\<close>

text \<open>
  The bounds start at \<open>Infinity\<close> and \<open>-Infinity\<close>. Every coordinate is finite, so the
  first iteration of \<open>voxels.forEach\<close> sets all six bounds to the coordinates of the
  first voxel; the box is therefore defined for a non-empty list only, starting from
  its first voxel.

  The sums, differences and halves of the camera placement are written in exact
  arithmetic. Double precision computes them exactly as long as the coordinates are at
  most \<open>2^50\<close> in magnitude: every intermediate value is then a multiple of one half
  below \<open>2^52\<close>. Beyond that the code rounds, and the properties of the camera are stated
  within this bound.
\<close>

record bbox =
  minX :: int
  maxX :: int
  minY :: int
  maxY :: int
  minZ :: int
  maxZ :: int

definition box_of :: "voxel \<Rightarrow> bbox" where
  "box_of v = \<lparr>minX = vx v, maxX = vx v, minY = vy v, maxY = vy v, minZ = vz v, maxZ = vz v\<rparr>"

text \<open>
  \<^verbatim>\<open>if(v.x<minX) minX=v.x; if(v.x>maxX) maxX=v.x;
  if(v.y<minY) minY=v.y; if(v.y>maxY) maxY=v.y;
  if(v.z<minZ) minZ=v.z; if(v.z>maxZ) maxZ=v.z;\<close>
\<close>

definition grow :: "bbox \<Rightarrow> voxel \<Rightarrow> bbox" where
  "grow b v =
     \<lparr>minX = (if vx v < minX b then vx v else minX b),
      maxX = (if vx v > maxX b then vx v else maxX b),
      minY = (if vy v < minY b then vy v else minY b),
      maxY = (if vy v > maxY b then vy v else maxY b),
      minZ = (if vz v < minZ b then vz v else minZ b),
      maxZ = (if vz v > maxZ b then vz v else maxZ b)\<rparr>"

record camera =
  camera_position :: vec3
  controls_target :: vec3

text \<open>
  \<^verbatim>\<open>if(voxels.length > 0) {
      const cx = (minX+maxX)/2; const cy = (minY+maxY)/2; const cz = (minZ+maxZ)/2;
      const size = Math.max(maxX-minX, maxY-minY, maxZ-minZ);
      controls.target.set(cx, cy, cz);
      camera.position.set(cx + size + 15, cy + size + 10, cz + size + 15);
  } else { camera.position.set(20,20,20); controls.target.set(0,0,0); }\<close>
\<close>

definition place_camera :: "bbox \<Rightarrow> camera" where
  "place_camera b =
     (let cx = real_of_int (minX b + maxX b) / 2;
          cy = real_of_int (minY b + maxY b) / 2;
          cz = real_of_int (minZ b + maxZ b) / 2;
          size = real_of_int (max (maxX b - minX b) (max (maxY b - minY b) (maxZ b - minZ b)))
      in \<lparr>camera_position = (cx + size + 15, cy + size + 10, cz + size + 15),
          controls_target = (cx, cy, cz)\<rparr>)"

fun frame_camera :: "voxel list \<Rightarrow> camera" where
  "frame_camera [] = \<lparr>camera_position = (20, 20, 20), controls_target = (0, 0, 0)\<rparr>"
| "frame_camera (v # vs) = place_camera (foldl grow (box_of v) vs)"

section \<open>The build guide\<close>

text \<open>
  \<open>counts\<close> and each \<open>layers[y]\<close> are object literals \<open>{}\<close> used as dictionaries. Their
  own properties are kept in the order of their creation. A value is a number or, when
  \<open>+ 1\<close> was applied to something that is not a number, a string (\<open>Text\<close>; its characters
  are not modelled).
\<close>

datatype cell = Count nat | Text

type_synonym tally = "(jsstring \<times> cell) list"

text \<open>
  A read \<open>obj[k]\<close> of a key that is not an own property goes to \<open>Object.prototype\<close>.
  These are its property names; all but \<open>__proto__\<close> hold functions.
\<close>

definition prototype_functions :: "jsstring list" where
  "prototype_functions =
     map lit [''constructor'', ''hasOwnProperty'', ''isPrototypeOf'', ''propertyIsEnumerable'',
       ''toLocaleString'', ''toString'', ''valueOf'', ''__defineGetter__'', ''__defineSetter__'',
       ''__lookupGetter__'', ''__lookupSetter__'']"

definition inherited :: "jsstring \<Rightarrow> bool" where
  "inherited k = (k = lit ''__proto__'' \<or> k \<in> set prototype_functions)"

text \<open>\<open>obj[k] = v\<close> on own properties: an existing key keeps its place, a new one is appended.\<close>

fun put :: "jsstring \<Rightarrow> cell \<Rightarrow> tally \<Rightarrow> tally" where
  "put k v [] = [(k, v)]"
| "put k v ((k', v') # kvs) = (if k = k' then (k, v) # kvs else (k', v') # put k v kvs)"

text \<open>
  \<open>obj[k] = (obj[k]||0)+1\<close>.
  \<^item> An own number \<open>n\<close> becomes \<open>n + 1\<close>; an own string gets \<open>1\<close> appended and stays a
    string.
  \<^item> A key that is neither own nor inherited reads \<open>undefined\<close>, and \<open>0 + 1\<close> is stored.
  \<^item> An inherited function is truthy, and adding 1 to it gives a string, which is
    stored as an own property.
  \<^item> \<open>__proto__\<close> reads \<open>Object.prototype\<close>; the assignment of the resulting string goes
    to the \<open>__proto__\<close> setter, which ignores a value that is not an object: nothing is
    stored.
\<close>

definition bump :: "jsstring \<Rightarrow> tally \<Rightarrow> tally" where
  "bump k obj =
     (case map_of obj k of
        Some (Count n) \<Rightarrow> put k (Count (n + 1)) obj
      | Some Text \<Rightarrow> put k Text obj
      | None \<Rightarrow>
          (if k = lit ''__proto__'' then obj
           else if k \<in> set prototype_functions then put k Text obj
           else put k (Count 1) obj))"

text \<open>
  \<open>Object.entries(obj)\<close> lists the own properties: first the keys that are array indices
  (the decimal numerals of 0 to \<open>2^32 - 2\<close>, without a leading zero), in ascending order,
  then the other keys in the order of their creation.
\<close>

definition array_index :: "jsstring \<Rightarrow> nat option" where
  "array_index k =
     (let n = foldl (\<lambda>n c. 10 * n + (c - 48)) 0 k in
      if k \<noteq> [] \<and> list_all (\<lambda>c. 48 \<le> c \<and> c \<le> 57) k \<and> (length k = 1 \<or> 49 \<le> hd k)
         \<and> n < 4294967295
      then Some n else None)"

definition entries :: "tally \<Rightarrow> tally" where
  "entries obj =
     sort_key (\<lambda>kv. case array_index (fst kv) of Some n \<Rightarrow> n | None \<Rightarrow> 0)
       (filter (\<lambda>kv. array_index (fst kv) \<noteq> None) obj)
     @ filter (\<lambda>kv. array_index (fst kv) = None) obj"

text \<open>\<open>voxels.forEach(v => counts[v.type] = (counts[v.type]||0)+1)\<close>\<close>

definition total_materials :: "voxel list \<Rightarrow> tally" where
  "total_materials voxels = foldl (\<lambda>counts v. bump (vtype v) counts) [] voxels"

text \<open>
  \<open>layers\<close> is keyed by \<open>v.y\<close>. The property name is the numeral that prints \<open>v.y\<close>: for
  an integer up to \<open>2^53\<close> in magnitude its decimal digits, which \<open>parseInt\<close> reads back
  as the same integer. Within this range the key is kept as the integer.
  \<^verbatim>\<open>if(!layers[v.y]) layers[v.y] = {};
  layers[v.y][v.type] = (layers[v.y][v.type]||0)+1;\<close>
\<close>

type_synonym layers = "(int \<times> tally) list"

fun put_layer :: "int \<Rightarrow> tally \<Rightarrow> layers \<Rightarrow> layers" where
  "put_layer k v [] = [(k, v)]"
| "put_layer k v ((k', v') # kvs) = (if k = k' then (k, v) # kvs else (k', v') # put_layer k v kvs)"

definition add_to_layer :: "layers \<Rightarrow> voxel \<Rightarrow> layers" where
  "add_to_layer ls v =
     (case map_of ls (vy v) of
        None \<Rightarrow> put_layer (vy v) (bump (vtype v) []) ls
      | Some obj \<Rightarrow> put_layer (vy v) (bump (vtype v) obj) ls)"

definition collect_layers :: "voxel list \<Rightarrow> layers" where
  "collect_layers voxels = foldl add_to_layer [] voxels"

text \<open>
  \<open>Object.keys(layers).sort((a,b) => parseInt(a)-parseInt(b))\<close>: the keys are the
  distinct values of \<open>y\<close>, and the comparator orders them by their value, ascending.
  No two keys compare equal, so the order in which \<open>Object.keys\<close> lists them does not
  show in the result.
\<close>

definition sortedYs :: "layers \<Rightarrow> int list" where
  "sortedYs ls = sort (map fst ls)"

text \<open>
  One group of the layer guide: the title \<open>Layer ${idx+1} (Y=${y})\<close> and the items of
  \<open>Object.entries(layers[y])\<close>.
\<close>

record layer_group =
  layer_number :: nat
  layer_y :: int
  layer_counts :: tally

definition layer_guide :: "voxel list \<Rightarrow> layer_group list" where
  "layer_guide voxels =
     (let ls = collect_layers voxels; ys = sortedYs ls in
      map (\<lambda>(idx, y). \<lparr>layer_number = idx + 1, layer_y = y,
                         layer_counts =
                           entries (case map_of ls y of Some obj \<Rightarrow> obj | None \<Rightarrow> [])\<rparr>)
          (zip [0 ..< length ys] ys))"

record recipe_book =
  list_summary :: tally
  list_layers :: "layer_group list"

text \<open>
  The two lists of the panel: the items of \<open>Object.entries(counts)\<close>, and the groups of
  the layer guide.
\<close>

definition generateRecipeBook :: "voxel list \<Rightarrow> recipe_book" where
  "generateRecipeBook voxels =
     \<lparr>list_summary = entries (total_materials voxels), list_layers = layer_guide voxels\<rparr>"

section \<open>The interpreter of the injected instructions\<close>

text \<open>
  The instruction text is JavaScript pasted into the closure of \<open>init\<close>, inside a
  module, with the array \<open>voxels\<close> and the function \<open>addBlock\<close> in scope. It is
  represented by what it does to them, as a sequence of effects; a loop of the text
  appears unrolled, so a text that never ends is not represented.
  \<^item> \<open>Place x y z t\<close>: a call \<open>addBlock(x, y, z, t)\<close>.
  \<^item> \<open>Raise\<close>: a \<open>throw\<close>, or any statement that throws.
  \<^item> \<open>Assign_push f\<close>: \<open>voxels.push = f\<close>, or any other statement after which
    \<open>voxels.push(v)\<close> behaves as \<open>f\<close> (\<open>Object.freeze(voxels)\<close> makes it throw): the call
    turns the array into what \<open>f voxels v\<close> returns, or throws.
  \<^item> \<open>Assign_addBlock g\<close>: \<open>addBlock = g\<close>, which a module allows for a declared
    function; from then on \<open>addBlock(x, y, z, t)\<close> turns the array into what \<open>g\<close> returns,
    or throws.
  \<^item> \<open>Edit_voxels h\<close>: a direct write to the array (\<open>voxels.length = 0\<close>,
    \<open>voxels.splice(...)\<close>, \<open>voxels[i] = ...\<close>).
  \<^item> \<open>CallGenerateWorld\<close>: a call \<open>generateWorld()\<close>.
  \<^item> \<open>Return\<close>: a \<open>return\<close> at the top level of the text, which leaves the closure.

  The text may declare a function \<open>generateWorld\<close>; declarations are hoisted, so the
  function exists from the start of the closure. Its body is a sequence of the first
  five effects.
\<close>

type_synonym placement = "int \<Rightarrow> int \<Rightarrow> int \<Rightarrow> type_arg \<Rightarrow> voxel list \<Rightarrow> error + voxel list"

datatype prim =
    Place int int int type_arg
  | Raise
  | Assign_push push_method
  | Assign_addBlock placement
  | Edit_voxels "voxel list \<Rightarrow> voxel list"

datatype stmt = Prim prim | CallGenerateWorld | Return

record program =
  body :: "stmt list"
  generateWorld :: "prim list option"

datatype outcome = Completed | Threw | Returned

text \<open>
  The array \<open>voxels\<close>, how many times \<open>generateWorld\<close> has been entered, the method
  \<open>voxels.push\<close>, and the function bound to \<open>addBlock\<close> (\<open>None\<close>: the function of the
  template).
\<close>

record run =
  placed :: "voxel list"
  invocations :: nat
  voxels_push :: push_method
  addBlock_now :: "placement option"

text \<open>The state in which \<open>init\<close> enters the closure.\<close>

definition start :: run where
  "start = \<lparr>placed = [], invocations = 0, voxels_push = Array_push, addBlock_now = None\<rparr>"

text \<open>A call \<open>addBlock(x, y, z, t)\<close> of the function that \<open>addBlock\<close> is bound to.\<close>

definition call_addBlock ::
  "(jsstring \<Rightarrow> jsstring) \<Rightarrow> int \<Rightarrow> int \<Rightarrow> int \<Rightarrow> type_arg \<Rightarrow> run \<Rightarrow> outcome \<times> run" where
  "call_addBlock ul x y z t s =
     (case addBlock_now s of
        None \<Rightarrow>
          (case addBlock ul (voxels_push s) x y z t (placed s) of
             Inl e \<Rightarrow> (Threw, s)
           | Inr vs \<Rightarrow> (Completed, s\<lparr>placed := vs\<rparr>))
      | Some g \<Rightarrow>
          (case g x y z t (placed s) of
             Inl e \<Rightarrow> (Threw, s)
           | Inr vs \<Rightarrow> (Completed, s\<lparr>placed := vs\<rparr>)))"

fun exec_prims :: "(jsstring \<Rightarrow> jsstring) \<Rightarrow> prim list \<Rightarrow> run \<Rightarrow> outcome \<times> run" where
  "exec_prims ul [] s = (Completed, s)"
| "exec_prims ul (Place x y z t # ps) s =
     (case call_addBlock ul x y z t s of
        (Completed, s') \<Rightarrow> exec_prims ul ps s'
      | (stopped, s') \<Rightarrow> (stopped, s'))"
| "exec_prims ul (Raise # ps) s = (Threw, s)"
| "exec_prims ul (Assign_push f # ps) s = exec_prims ul ps (s\<lparr>voxels_push := f\<rparr>)"
| "exec_prims ul (Assign_addBlock g # ps) s = exec_prims ul ps (s\<lparr>addBlock_now := Some g\<rparr>)"
| "exec_prims ul (Edit_voxels h # ps) s = exec_prims ul ps (s\<lparr>placed := h (placed s)\<rparr>)"

text \<open>
  A call of \<open>generateWorld\<close>; calling a name that is not declared throws. The function
  ends when its body does.
\<close>

definition call_generateWorld :: "(jsstring \<Rightarrow> jsstring) \<Rightarrow> program \<Rightarrow> run \<Rightarrow> outcome \<times> run" where
  "call_generateWorld ul p s =
     (case generateWorld p of
        None \<Rightarrow> (Threw, s)
      | Some ps \<Rightarrow> exec_prims ul ps (s\<lparr>invocations := invocations s + 1\<rparr>))"

fun exec_body :: "(jsstring \<Rightarrow> jsstring) \<Rightarrow> program \<Rightarrow> stmt list \<Rightarrow> run \<Rightarrow> outcome \<times> run" where
  "exec_body ul p [] s = (Completed, s)"
| "exec_body ul p (Prim q # ss) s =
     (case exec_prims ul [q] s of
        (Completed, s') \<Rightarrow> exec_body ul p ss s'
      | (stopped, s') \<Rightarrow> (stopped, s'))"
| "exec_body ul p (CallGenerateWorld # ss) s =
     (case call_generateWorld ul p s of
        (Completed, s') \<Rightarrow> exec_body ul p ss s'
      | (stopped, s') \<Rightarrow> (stopped, s'))"
| "exec_body ul p (Return # ss) s = (Returned, s)"

text \<open>
  \<^verbatim>\<open>(() => {
      ${aiCode}
      // If the AI defined a function but didn't call it, call it now.
      if (typeof generateWorld === 'function') { generateWorld(); }
  })();\<close>
  A \<open>return\<close> of the text leaves the closure before the test; the call of the closure
  then completes.
\<close>

definition run_closure :: "(jsstring \<Rightarrow> jsstring) \<Rightarrow> program \<Rightarrow> run \<Rightarrow> outcome \<times> run" where
  "run_closure ul p s =
     (case exec_body ul p (body p) s of
        (Completed, s') \<Rightarrow>
          (if generateWorld p \<noteq> None then call_generateWorld ul p s' else (Completed, s'))
      | (Threw, s') \<Rightarrow> (Threw, s')
      | (Returned, s') \<Rightarrow> (Completed, s'))"

text \<open>
  \<^verbatim>\<open>for(let x=-2; x<=2; x++) { for(let z=-2; z<=2; z++) { addBlock(x, 0, z, 'bedrock'); } }
  addBlock(0, 1, 0, 'planks_oak');
  addBlock(0, 2, 0, 'planks_oak');\<close>
  The calls go to the function that \<open>addBlock\<close> is bound to at that moment.
\<close>

definition fallback_calls :: "prim list" where
  "fallback_calls =
     concat (map (\<lambda>x. map (\<lambda>z. Place x 0 z (Str (lit ''bedrock''))) [-2 .. 2]) [-2 .. 2])
     @ [Place 0 1 0 (Str (lit ''planks_oak'')), Place 0 2 0 (Str (lit ''planks_oak''))]"

definition fallback :: "(jsstring \<Rightarrow> jsstring) \<Rightarrow> run \<Rightarrow> outcome \<times> run" where
  "fallback ul s = exec_prims ul fallback_calls s"

text \<open>
  What \<open>init\<close> leaves behind. The whole of \<open>init\<close> is one \<open>try\<close> block: when the closure
  or the fallback throws, control goes to the \<open>catch\<close> block, which shows the error box;
  what follows in the \<open>try\<close> block is skipped. Otherwise the fallback runs when
  \<open>voxels.length === 0\<close>, then the camera is framed on the voxel list and the build guide
  is generated from it.
\<close>

record scene =
  final_voxels :: "voxel list"
  generateWorld_calls :: nat
  error_box_shown :: bool
  view :: "camera option"
  guide :: "recipe_book option"

definition crashed :: "run \<Rightarrow> scene" where
  "crashed s =
     \<lparr>final_voxels = placed s, generateWorld_calls = invocations s, error_box_shown = True,
      view = None, guide = None\<rparr>"

definition rendered :: "run \<Rightarrow> scene" where
  "rendered s =
     \<lparr>final_voxels = placed s, generateWorld_calls = invocations s, error_box_shown = False,
      view = Some (frame_camera (placed s)), guide = Some (generateRecipeBook (placed s))\<rparr>"

definition init :: "(jsstring \<Rightarrow> jsstring) \<Rightarrow> program \<Rightarrow> scene" where
  "init ul p =
     (case run_closure ul p start of
        (Threw, s) \<Rightarrow> crashed s
      | (completed, s) \<Rightarrow>
          (if length (placed s) = 0
           then (case fallback ul s of
                   (Threw, s') \<Rightarrow> crashed s'
                 | (completed, s') \<Rightarrow> rendered s')
           else rendered s))"

text \<open>The footprint the fallback is meant to leave, written out.\<close>

definition bedrock_at :: "int \<Rightarrow> int \<Rightarrow> voxel" where
  "bedrock_at x z = \<lparr>vx = x, vy = 0, vz = z, vtype = lit ''bedrock''\<rparr>"

definition plank_at :: "int \<Rightarrow> voxel" where
  "plank_at y = \<lparr>vx = 0, vy = y, vz = 0, vtype = lit ''planks_oak''\<rparr>"

definition fallback_footprint :: "voxel list" where
  "fallback_footprint =
     concat (map (\<lambda>x. map (\<lambda>z. bedrock_at x z) [-2, -1, 0, 1, 2]) [-2, -1, 0, 1, 2])
     @ [plank_at 1, plank_at 2]"

section \<open>The document post-processor\<close>

subsection \<open>Matching\<close>

text \<open>
  The white space of \<open>String.prototype.trim\<close> and of \<open>\s\<close> in a regular expression:
  the code units of WhiteSpace and LineTerminator.
\<close>

definition is_ws :: "nat \<Rightarrow> bool" where
  "is_ws c = (c = 9 \<or> c = 10 \<or> c = 11 \<or> c = 12 \<or> c = 13 \<or> c = 32 \<or> c = 160 \<or> c = 5760
     \<or> (8192 \<le> c \<and> c \<le> 8202) \<or> c = 8232 \<or> c = 8233 \<or> c = 8239 \<or> c = 8287
     \<or> c = 12288 \<or> c = 65279)"


text \<open>The literal \<open>pat\<close> matches at the start of the text.\<close>

fun starts :: "jsstring \<Rightarrow> jsstring \<Rightarrow> bool" where
  "starts [] s = True"
| "starts (p # ps) [] = False"
| "starts (p # ps) (c # cs) = (c = p \<and> starts ps cs)"

text \<open>
  The same under the flag \<open>i\<close>, for a pattern of ASCII characters: a letter matches
  its two cases, and no code unit beyond ASCII matches an ASCII character.
\<close>

fun starts_ci :: "jsstring \<Rightarrow> jsstring \<Rightarrow> bool" where
  "starts_ci [] s = True"
| "starts_ci (p # ps) [] = False"
| "starts_ci (p # ps) (c # cs) = (lower_ascii c = lower_ascii p \<and> starts_ci ps cs)"

text \<open>
  A regular expression is tried at index 0, then 1, and so on; the first index where
  it matches wins. \<open>m\<close> is the match at the start of a text; \<open>scan\<close> returns the text
  before the first match together with what \<open>m\<close> returns there.
\<close>

fun scan :: "(jsstring \<Rightarrow> 'a option) \<Rightarrow> jsstring \<Rightarrow> (jsstring \<times> 'a) option" where
  "scan m [] = (case m [] of Some r \<Rightarrow> Some ([], r) | None \<Rightarrow> None)"
| "scan m (c # cs) =
     (case m (c # cs) of
        Some r \<Rightarrow> Some ([], r)
      | None \<Rightarrow> (case scan m cs of Some (pre, r) \<Rightarrow> Some (c # pre, r) | None \<Rightarrow> None))"

text \<open>The literal \<open>pat\<close> at the start of the text: the rest after it.\<close>

definition literal :: "jsstring \<Rightarrow> jsstring \<Rightarrow> jsstring option" where
  "literal pat s = (if starts pat s then Some (drop (length pat) s) else None)"

definition literal_ci :: "jsstring \<Rightarrow> jsstring \<Rightarrow> jsstring option" where
  "literal_ci pat s = (if starts_ci pat s then Some (drop (length pat) s) else None)"

subsection \<open>\<open>extractHtmlFromText\<close>\<close>






subsection \<open>\<open>hideBodyText\<close>\<close>

fun join_lines :: "jsstring list \<Rightarrow> jsstring" where
  "join_lines [] = []"
| "join_lines [l] = l"
| "join_lines (l # ls) = l @ [10] @ join_lines ls"

text \<open>
  The template literal \<open>cssToInject\<close>, line by line; 39 is the apostrophe. It starts
  with a line break and ends with two spaces.
\<close>

definition cssToInject :: jsstring where
  "cssToInject =
     join_lines
       [[],
        lit ''    <style>'',
        lit ''      /* Hides common overlay IDs and classes used in Three.js examples and generated code */'',
        lit ''      #info, #loading, #ui, #instructions, .label, .overlay, #description {'',
        lit ''        display: none !important;'',
        lit ''        opacity: 0 !important;'',
        lit ''        pointer-events: none !important;'',
        lit ''        visibility: hidden !important;'',
        lit ''      }'',
        lit ''      /* Exception for our build instructions panel */'',
        lit ''      #mc-build-instructions {'',
        lit ''        opacity: 1 !important;'',
        lit ''        pointer-events: auto !important;'',
        lit ''        visibility: visible !important;'',
        lit ''        /* Don'' @ [39] @ lit ''t force display:block here, let JS toggle it */'',
        lit ''      }'',
        lit ''      /* Ensure the body doesn'' @ [39] @ lit ''t show selected text cursor interaction outside canvas */'',
        lit ''      body {'',
        lit ''        user-select: none !important;'',
        lit ''      }'',
        lit ''    </style>'',
        lit ''  '']"

text \<open>\<open>s.includes(pat)\<close>; the name \<open>includes\<close> is reserved.\<close>

definition js_includes :: "jsstring \<Rightarrow> jsstring \<Rightarrow> bool" where
  "js_includes s pat = (scan (literal pat) s \<noteq> None)"

text \<open>
  \<open>s.replace(/pat/i, replacement)\<close> for a literal pattern and a replacement text
  without \<open>$\<close>: the first match is replaced, and a text without a match is returned
  as it is.
\<close>

definition replace_first_ci :: "jsstring \<Rightarrow> jsstring \<Rightarrow> jsstring \<Rightarrow> jsstring" where
  "replace_first_ci pat replacement s =
     (case scan (literal_ci pat) s of
        Some (before, rest) \<Rightarrow> before @ replacement @ rest
      | None \<Rightarrow> s)"

text \<open>
  \<^verbatim>\<open>if (html.toLowerCase().includes('</head>')) {
    return html.replace(/<\/head>/i, `${cssToInject}</head>`); }
  if (html.toLowerCase().includes('</body>')) {
    return html.replace(/<\/body>/i, `${cssToInject}</body>`); }
  return html + cssToInject;\<close>
\<close>

definition hideBodyText :: "(jsstring \<Rightarrow> jsstring) \<Rightarrow> jsstring \<Rightarrow> jsstring" where
  "hideBodyText ul html =
     (if js_includes (toLowerCase ul html) (lit ''</head>'')
      then replace_first_ci (lit ''</head>'') (cssToInject @ lit ''</head>'') html
      else if js_includes (toLowerCase ul html) (lit ''</body>'')
      then replace_first_ci (lit ''</body>'') (cssToInject @ lit ''</body>'') html
      else html @ cssToInject)"

text \<open>
  The number of indices at which a tag occurs in a text, letters in either case.
\<close>

fun count_ci :: "jsstring \<Rightarrow> jsstring \<Rightarrow> nat" where
  "count_ci pat [] = 0"
| "count_ci pat (c # cs) = (if starts_ci pat (c # cs) then 1 else 0) + count_ci pat cs"

subsection \<open>\<open>zoomCamera\<close>\<close>

text \<open>\<open>\d\<close>\<close>

definition is_digit :: "nat \<Rightarrow> bool" where
  "is_digit c = (48 \<le> c \<and> c \<le> 57)"

text \<open>
  \<open>-?\d*\.?\d+\<close> at the start of a text: the matched numeral and the rest. The sign is
  taken when it is there, then the longest run of digits; a point is taken only when a
  digit follows it, with the longest run of digits after it. A shorter match cannot
  make the whole expression succeed, because it is followed by a digit or by a point,
  and what the expression wants next is white space, a comma or a parenthesis.
\<close>

definition number :: "jsstring \<Rightarrow> (jsstring \<times> jsstring) option" where
  "number s =
     (let sign = (if starts [45] s then [45] else []);
          u = drop (length sign) s;
          int_part = takeWhile is_digit u;
          r = dropWhile is_digit u;
          fraction = (case r of [] \<Rightarrow> [] | c # r' \<Rightarrow> if c = 46 then takeWhile is_digit r' else [])
      in if fraction \<noteq> [] then Some (sign @ int_part @ 46 # fraction, drop (Suc (length fraction)) r)
         else if int_part \<noteq> [] then Some (sign @ int_part, r)
         else None)"

text \<open>\<open>\s*(-?\d*\.?\d+)\<close>\<close>

definition argument :: "jsstring \<Rightarrow> (jsstring \<times> jsstring) option" where
  "argument s = number (dropWhile is_ws s)"

text \<open>\<open>\s*\<close> and then the character \<open>ch\<close> (a comma is 44, the closing parenthesis 41).\<close>

definition token :: "nat \<Rightarrow> jsstring \<Rightarrow> jsstring option" where
  "token ch s = (case dropWhile is_ws s of [] \<Rightarrow> None | c # r \<Rightarrow> if c = ch then Some r else None)"

text \<open>
  \<open>/camera\.position\.set\(\s*(-?\d*\.?\d+)\s*,\s*(-?\d*\.?\d+)\s*,\s*(-?\d*\.?\d+)\s*\)/\<close>
  at the start of a text: the three groups and the rest.
\<close>

definition camera_call_at :: "jsstring \<Rightarrow> ((jsstring \<times> jsstring \<times> jsstring) \<times> jsstring) option" where
  "camera_call_at s =
     (case literal (lit ''camera.position.set('') s of None \<Rightarrow> None | Some a \<Rightarrow>
     (case argument a of None \<Rightarrow> None | Some (x, b) \<Rightarrow>
     (case token 44 b of None \<Rightarrow> None | Some c \<Rightarrow>
     (case argument c of None \<Rightarrow> None | Some (y, d) \<Rightarrow>
     (case token 44 d of None \<Rightarrow> None | Some e \<Rightarrow>
     (case argument e of None \<Rightarrow> None | Some (z, f) \<Rightarrow>
     (case token 41 f of None \<Rightarrow> None | Some rest \<Rightarrow> Some ((x, y, z), rest))))))))"

text \<open>
  JavaScript numbers are double-precision floats. The function uses three operations on
  them: \<open>parseFloat\<close>, the product and the conversion to a string of the template
  literal. They are built-ins; the type of numbers and the three operations are
  parameters of the model.
\<close>

record 'n number_ops =
  parseFloat :: "jsstring \<Rightarrow> 'n"
  times :: "'n \<Rightarrow> 'n \<Rightarrow> 'n"
  toString :: "'n \<Rightarrow> jsstring"

text \<open>\<open>${parseFloat(x) * zoomFactor}\<close>\<close>

definition scaled :: "'n number_ops \<Rightarrow> 'n \<Rightarrow> jsstring \<Rightarrow> jsstring" where
  "scaled ops zoomFactor x = toString ops (times ops (parseFloat ops x) zoomFactor)"

text \<open>\<open>`camera.position.set(${newX}, ${newY}, ${newZ})`\<close>\<close>

definition new_call :: "'n number_ops \<Rightarrow> 'n \<Rightarrow> jsstring \<Rightarrow> jsstring \<Rightarrow> jsstring \<Rightarrow> jsstring" where
  "new_call ops zoomFactor x y z =
     lit ''camera.position.set('' @ scaled ops zoomFactor x @ lit '', '' @ scaled ops zoomFactor y
       @ lit '', '' @ scaled ops zoomFactor z @ lit '')''"

text \<open>
  \<open>html.replace(regex, callback)\<close> with the flag \<open>g\<close>: the first match is replaced and the
  scan goes on after it. A match is never empty, so the text after it is shorter than
  the text scanned (lemma \<open>scan_camera_shorter\<close>); the test on the lengths only makes
  the recursion evidently terminating.
\<close>

function zoomCamera :: "'n number_ops \<Rightarrow> jsstring \<Rightarrow> 'n \<Rightarrow> jsstring" where
  "zoomCamera ops html zoomFactor =
     (case scan camera_call_at html of
        None \<Rightarrow> html
      | Some (before, (x, y, z), rest) \<Rightarrow>
          before @ new_call ops zoomFactor x y z
            @ (if length rest < length html then zoomCamera ops rest zoomFactor else rest))"
  by pat_completeness auto
termination
  by (relation "measure (\<lambda>(ops, html, zoomFactor). length html)") auto

declare zoomCamera.simps [simp del]

subsection \<open>The notions of the specification\<close>

text \<open>
  The calls the specification speaks of. A numeral is an optional minus sign followed by
  digits, or by digits (possibly none), a point and at least one digit. A call is the
  text \<open>camera.position.set(\<close>, three numerals separated by commas and the closing
  parenthesis, with white space allowed around each numeral.
\<close>

definition unsigned_numeral :: "jsstring \<Rightarrow> bool" where
  "unsigned_numeral u =
     (case dropWhile is_digit u of
        [] \<Rightarrow> u \<noteq> []
      | c # fraction \<Rightarrow> c = 46 \<and> fraction \<noteq> [] \<and> list_all is_digit fraction)"

definition is_numeral :: "jsstring \<Rightarrow> bool" where
  "is_numeral n =
     (case n of [] \<Rightarrow> False | c # u \<Rightarrow> if c = 45 then unsigned_numeral u else unsigned_numeral (c # u))"

record call =
  ws1 :: jsstring
  arg_x :: jsstring
  ws2 :: jsstring
  ws3 :: jsstring
  arg_y :: jsstring
  ws4 :: jsstring
  ws5 :: jsstring
  arg_z :: jsstring
  ws6 :: jsstring

definition call_text :: "call \<Rightarrow> jsstring" where
  "call_text c =
     lit ''camera.position.set('' @ ws1 c @ arg_x c @ ws2 c @ [44] @ ws3 c @ arg_y c @ ws4 c
       @ [44] @ ws5 c @ arg_z c @ ws6 c @ [41]"

definition well_formed :: "call \<Rightarrow> bool" where
  "well_formed c =
     (list_all is_ws (ws1 c) \<and> list_all is_ws (ws2 c) \<and> list_all is_ws (ws3 c)
      \<and> list_all is_ws (ws4 c) \<and> list_all is_ws (ws5 c) \<and> list_all is_ws (ws6 c)
      \<and> is_numeral (arg_x c) \<and> is_numeral (arg_y c) \<and> is_numeral (arg_z c))"






text \<open>
  \<open>compatible pat w\<close>: \<open>w\<close> agrees with the pattern as far as both reach, so that an
  occurrence could start with \<open>w\<close>. A text is free of the pattern when no occurrence
  can start inside it, whatever follows.
\<close>

fun compatible :: "jsstring \<Rightarrow> jsstring \<Rightarrow> bool" where
  "compatible [] w = True"
| "compatible (p # ps) [] = True"
| "compatible (p # ps) (c # cs) = (lower_ascii c = lower_ascii p \<and> compatible ps cs)"

fun free_of :: "jsstring \<Rightarrow> jsstring \<Rightarrow> bool" where
  "free_of pat [] = True"
| "free_of pat (c # cs) = (\<not> compatible pat (c # cs) \<and> free_of pat cs)"

section \<open>Worked inputs and auxiliary notions\<close>

text \<open>Three voxels spanning \<open>x\<close> in [-2, 2], \<open>y\<close> in [0, 3] and \<open>z\<close> in [-1, 1].\<close>

definition span_example :: "voxel list" where
  "span_example =
     [\<lparr>vx = - 2, vy = 0, vz = - 1, vtype = lit ''stone''\<rparr>,
      \<lparr>vx = 2, vy = 3, vz = 1, vtype = lit ''stone''\<rparr>,
      \<lparr>vx = 0, vy = 1, vz = 0, vtype = lit ''dirt''\<rparr>]"

text \<open>Instructions that place these three voxels.\<close>

definition span_program :: program where
  "span_program =
     \<lparr>body = [Prim (Place (- 2) 0 (- 1) (Str (lit ''stone''))),
              Prim (Place 2 3 1 (Str (lit ''stone''))),
              Prim (Place 0 1 0 (Str (lit ''dirt'')))],
      generateWorld = None\<rparr>"

text \<open>
  The coordinates up to which the camera placement is exact in double precision.
\<close>

definition within_exact_range :: "voxel list \<Rightarrow> bool" where
  "within_exact_range voxels =
     list_all (\<lambda>v. \<bar>vx v\<bar> \<le> 2 ^ 50 \<and> \<bar>vy v\<bar> \<le> 2 ^ 50 \<and> \<bar>vz v\<bar> \<le> 2 ^ 50) voxels"

text \<open>The voxel list of the build-guide example of the specification.\<close>

definition guide_example :: "voxel list" where
  "guide_example =
     [\<lparr>vx = 0, vy = 0, vz = 0, vtype = lit ''stone''\<rparr>,
      \<lparr>vx = 1, vy = 0, vz = 0, vtype = lit ''stone''\<rparr>,
      \<lparr>vx = 0, vy = 1, vz = 0, vtype = lit ''dirt''\<rparr>]"

text \<open>
  The numbers of the example of the specification: the literals 10, 20 and -30, their
  products with one half, and how these print.
\<close>

definition decimal_ops :: "real number_ops" where
  "decimal_ops =
     \<lparr>parseFloat = (\<lambda>s. if s = lit ''10'' then 10 else if s = lit ''20'' then 20
                       else if s = lit ''-30'' then - 30 else 0),
      times = (*),
      toString = (\<lambda>v. if v = 5 then lit ''5'' else if v = 10 then lit ''10''
                     else if v = - 15 then lit ''-15'' else lit ''0'')\<rparr>"

definition example_call :: call where
  "example_call =
     \<lparr>ws1 = [], arg_x = lit ''10'', ws2 = [], ws3 = lit '' '', arg_y = lit ''20'', ws4 = [],
      ws5 = lit '' '', arg_z = lit ''-30'', ws6 = []\<rparr>"

text \<open>
  A tally is numeric when every value is a positive number; \<open>count_of\<close> reads a tally
  as a function from types to numbers.
\<close>

definition numeric :: "tally \<Rightarrow> bool" where
  "numeric obj = (Text \<notin> snd ` set obj \<and> Count 0 \<notin> snd ` set obj)"

definition count_of :: "tally \<Rightarrow> jsstring \<Rightarrow> nat" where
  "count_of obj k = (case map_of obj k of Some (Count n) \<Rightarrow> n | _ \<Rightarrow> 0)"

section \<open>Placement: properties\<close>

lemma toLowerCase_ascii:
  "list_all (\<lambda>c. c < 128) s \<Longrightarrow> toLowerCase ul s = map lower_ascii s"
  by (simp add: toLowerCase_def)

lemma stone_normalised: "replace_spaces (toLowerCase ul (lit ''stone'')) = lit ''stone''"
  by (simp add: replace_spaces_def toLowerCase_def lit_def lower_ascii_def)

text \<open>
  C10, as the source has it. On the array with its built-in \<open>push\<close>, a call
  \<open>addBlock(x, y, z, type)\<close> whose \<open>type\<close> is a non-empty string (or a \<open>String\<close> object)
  appends exactly one voxel, with the coordinates of the call and the argument
  lowercased, every space replaced by an underscore, and leaves the existing entries as
  they are. A call whose \<open>type\<close> is falsy (\<open>undefined\<close>, \<open>null\<close>, the empty string, and
  also \<open>false\<close>, \<open>0\<close>, \<open>NaN\<close> and \<open>0n\<close>) appends one voxel of type \<open>stone\<close> in the same
  way. A call whose \<open>type\<close> is any other value (\<open>true\<close>, a number other than \<open>0\<close> and
  \<open>NaN\<close>, a bigint other than \<open>0n\<close>, a symbol, an object without the method) throws a
  \<open>TypeError\<close> and appends nothing.
\<close>

theorem addBlock_appends_normalised:
  "(t = Undefined \<or> t = Null \<or> t = Str [] \<or> t = Boolean False \<or> t = Number (Finite 0)
      \<or> t = Number NaN \<or> t = BigInt 0 \<longrightarrow>
     addBlock ul Array_push x y z t voxels =
       Inr (voxels @ [\<lparr>vx = x, vy = y, vz = z, vtype = lit ''stone''\<rparr>]))
   \<and> ((t = Str s \<and> s \<noteq> []) \<or> t = String_object s \<longrightarrow>
     addBlock ul Array_push x y z t voxels =
       Inr (voxels @ [\<lparr>vx = x, vy = y, vz = z, vtype = replace_spaces (toLowerCase ul s)\<rparr>]))
   \<and> (t = Boolean True \<or> (t = Number n \<and> n \<noteq> Finite 0 \<and> n \<noteq> NaN) \<or> (t = BigInt i \<and> i \<noteq> 0)
      \<or> t = Symbol \<or> t = Object \<longrightarrow>
     addBlock ul push x y z t voxels = Inl TypeError)
   \<and> (addBlock ul Array_push x y z t voxels = Inr vs \<longrightarrow>
     length vs = Suc (length voxels) \<and> take (length voxels) vs = voxels
     \<and> vx (last vs) = x \<and> vy (last vs) = y \<and> vz (last vs) = z)"
proof -
  have falsy: "t = Undefined \<or> t = Null \<or> t = Str [] \<or> t = Boolean False \<or> t = Number (Finite 0)
      \<or> t = Number NaN \<or> t = BigInt 0 \<Longrightarrow>
     addBlock ul Array_push x y z t voxels =
       Inr (voxels @ [\<lparr>vx = x, vy = y, vz = z, vtype = lit ''stone''\<rparr>])"
    by (auto simp: addBlock_def or_stone_def truthy_def Array_push_def stone_normalised)
  have string: "(t = Str s \<and> s \<noteq> []) \<or> t = String_object s \<Longrightarrow>
     addBlock ul Array_push x y z t voxels =
       Inr (voxels @ [\<lparr>vx = x, vy = y, vz = z, vtype = replace_spaces (toLowerCase ul s)\<rparr>])"
    by (auto simp: addBlock_def or_stone_def truthy_def Array_push_def)
  have other: "t = Boolean True \<or> (t = Number n \<and> n \<noteq> Finite 0 \<and> n \<noteq> NaN)
      \<or> (t = BigInt i \<and> i \<noteq> 0) \<or> t = Symbol \<or> t = Object \<Longrightarrow>
     addBlock ul push x y z t voxels = Inl TypeError"
    by (cases n) (auto simp: addBlock_def or_stone_def truthy_def)
  have one: "addBlock ul Array_push x y z t voxels = Inr vs \<Longrightarrow>
     length vs = Suc (length voxels) \<and> take (length voxels) vs = voxels
     \<and> vx (last vs) = x \<and> vy (last vs) = y \<and> vz (last vs) = z"
    by (auto simp: addBlock_def Array_push_def split: type_arg.splits)
  from falsy string other one show ?thesis by blast
qed

theorem addBlock_appends_normalised_witness:
  "addBlock (\<lambda>s. s) Array_push 1 2 3 (Str (lit ''Planks Oak'')) []
     = Inr [\<lparr>vx = 1, vy = 2, vz = 3, vtype = lit ''planks_oak''\<rparr>]
   \<and> addBlock (\<lambda>s. s) Array_push 1 2 3 Undefined []
     = Inr [\<lparr>vx = 1, vy = 2, vz = 3, vtype = lit ''stone''\<rparr>]
   \<and> addBlock (\<lambda>s. s) Array_push 1 2 3 (Boolean True) [] = Inl TypeError"
  using addBlock_appends_normalised
      [where t = "Str (lit ''Planks Oak'')" and s = "lit ''Planks Oak''" and ul = "\<lambda>s. s"
         and x = 1 and y = 2 and z = 3 and voxels = "[]"]
    addBlock_appends_normalised
      [where t = Undefined and ul = "\<lambda>s. s" and x = 1 and y = 2 and z = 3 and voxels = "[]"]
    addBlock_appends_normalised
      [where t = "Boolean True" and ul = "\<lambda>s. s" and x = 1 and y = 2 and z = 3
         and voxels = "[]" and push = Array_push]
  by (simp add: replace_spaces_def toLowerCase_def lit_def lower_ascii_def)

text \<open>
  A call with the number 5 as \<open>type\<close> throws and appends nothing; a call with the
  number 0 stores \<open>stone\<close>, not the argument lowercased; and on an array whose \<open>push\<close>
  was replaced by a function that stores nothing, a call with a string appends nothing.
\<close>

theorem addBlock_number_throws:
  "addBlock (\<lambda>s. s) Array_push 0 0 0 (Number (Finite 5)) [] = Inl TypeError
   \<and> addBlock (\<lambda>s. s) Array_push 0 0 0 (Number (Finite 0)) []
       = Inr [\<lparr>vx = 0, vy = 0, vz = 0, vtype = lit ''stone''\<rparr>]
   \<and> addBlock (\<lambda>s. s) (\<lambda>voxels v. Inr voxels) 0 0 0 (Str (lit ''dirt'')) [] = Inr []"
  by (simp add: addBlock_def or_stone_def truthy_def Array_push_def replace_spaces_def
      toLowerCase_def lit_def lower_ascii_def)

section \<open>Environment: properties\<close>

text \<open>
  C2, as the source has it. An environment message with \<open>sunlight = 0.0\<close> selects the
  dawn band. One with \<open>sunlight = 0.45\<close> selects the sunset band, the third of the
  chain (\<open>time < 0.55\<close>); the night band is selected from 0.55 up to 0.9. Each band is
  a fixed triple and the choice only compares \<open>sunlight\<close> with the thresholds.
\<close>

theorem sky_band_thresholds:
  "sky_band 0.0 = dawn_band
   \<and> sky_band 0.45 = sunset_band
   \<and> sky_band time =
       (if time < 0.1 then dawn_band else if time < 0.4 then day_band
        else if time < 0.55 then sunset_band else if time < 0.9 then night_band
        else sunrise_band)
   \<and> (lighting d = Some r \<longrightarrow>
        (\<exists>r'. lighting (on_message (Environment time g) d) = Some r'
              \<and> background r' = sky_band time \<and> fog_colour r' = sky_band time))"
  by (simp add: sky_band_def dawn_band_def day_band_def sunset_band_def night_band_def
      sunrise_band_def on_message_def environment_def Let_def)

theorem sky_band_thresholds_witness:
  "\<exists>r'. lighting (on_message (Environment 0.45 0)
           \<lparr>lighting = Some initial_rig, panel_display_none = True\<rparr>) = Some r'
        \<and> background r' = HSL 0.85 0.6 0.6 \<and> fog_colour r' = HSL 0.85 0.6 0.6"
  using sky_band_thresholds
    [of "0.45" "\<lparr>lighting = Some initial_rig, panel_display_none = True\<rparr>" initial_rig 0]
  by (auto simp: sunset_band_def)

text \<open>
  With \<open>sunlight = 0.45\<close> the handler does not select the night band: the sky is the
  triple of the third branch.
\<close>

theorem sky_band_045_not_night:
  "sky_band 0.45 \<noteq> night_band \<and> sky_band 0.45 = HSL 0.85 0.6 0.6"
  by (simp add: sky_band_def night_band_def)

text \<open>
  C9. After an environment message is handled, the sun and the moon are never both at
  non-zero intensity: when the computed height of the sun is above \<open>-10\<close> the sun is lit
  (1.2) and the moon dark, otherwise the moon is lit (0.5) and the sun dark. This holds
  for every value of \<open>sunlight\<close>.
\<close>

theorem sun_moon_exclusive:
  assumes "lighting d = Some r"
  shows "\<exists>r'. lighting (on_message (Environment time g) d) = Some r'
     \<and> \<not> (sun_intensity r' \<noteq> 0 \<and> moon_intensity r' \<noteq> 0)
     \<and> (sun_intensity r' \<noteq> 0 \<or> moon_intensity r' \<noteq> 0)
     \<and> ((sun_intensity r' = 1.2 \<and> moon_intensity r' = 0) = (sin (time * pi * 2 - pi / 2) * 120 > - 10))
     \<and> ((sun_intensity r' = 0 \<and> moon_intensity r' = 0.5) = (\<not> sin (time * pi * 2 - pi / 2) * 120 > - 10))"
  using assms
  by (simp add: on_message_def environment_def Let_def isDay_def sun_y_def sun_angle_def)

theorem sun_moon_exclusive_witness:
  "\<exists>r'. lighting (on_message (Environment 0.5 1)
           \<lparr>lighting = Some initial_rig, panel_display_none = True\<rparr>) = Some r'
        \<and> sun_intensity r' = 1.2 \<and> moon_intensity r' = 0"
proof -
  have h: "lighting \<lparr>lighting = Some initial_rig, panel_display_none = True\<rparr> = Some initial_rig"
    by simp
  have day: "sin (0.5 * pi * 2 - pi / 2) * 120 > (- 10 :: real)"
    by simp
  from sun_moon_exclusive [OF h, of "0.5" 1] day show ?thesis
    by auto
qed

section \<open>Camera framing: properties\<close>

lemma grow_fields:
  "minX (grow b v) = min (vx v) (minX b)" "maxX (grow b v) = max (vx v) (maxX b)"
  "minY (grow b v) = min (vy v) (minY b)" "maxY (grow b v) = max (vy v) (maxY b)"
  "minZ (grow b v) = min (vz v) (minZ b)" "maxZ (grow b v) = max (vz v) (maxZ b)"
  by (simp_all add: grow_def min_def max_def)

lemma foldl_grow_fold:
  "minX (foldl grow b vs) = fold min (map vx vs) (minX b)"
  "maxX (foldl grow b vs) = fold max (map vx vs) (maxX b)"
  "minY (foldl grow b vs) = fold min (map vy vs) (minY b)"
  "maxY (foldl grow b vs) = fold max (map vy vs) (maxY b)"
  "minZ (foldl grow b vs) = fold min (map vz vs) (minZ b)"
  "maxZ (foldl grow b vs) = fold max (map vz vs) (maxZ b)"
  by (induction vs arbitrary: b) (simp_all add: grow_fields)

lemma box_bounds:
  "minX (foldl grow (box_of v) vs) = Min (vx ` set (v # vs))"
  "maxX (foldl grow (box_of v) vs) = Max (vx ` set (v # vs))"
  "minY (foldl grow (box_of v) vs) = Min (vy ` set (v # vs))"
  "maxY (foldl grow (box_of v) vs) = Max (vy ` set (v # vs))"
  "minZ (foldl grow (box_of v) vs) = Min (vz ` set (v # vs))"
  "maxZ (foldl grow (box_of v) vs) = Max (vz ` set (v # vs))"
  using Min.set_eq_fold [of "vx v" "map vx vs"] Max.set_eq_fold [of "vx v" "map vx vs"]
    Min.set_eq_fold [of "vy v" "map vy vs"] Max.set_eq_fold [of "vy v" "map vy vs"]
    Min.set_eq_fold [of "vz v" "map vz vs"] Max.set_eq_fold [of "vz v" "map vz vs"]
  by (simp_all add: foldl_grow_fold box_of_def)

text \<open>
  The camera of a non-empty list, in terms of the least and greatest coordinates.
\<close>

lemma frame_camera_box:
  "voxels \<noteq> [] \<Longrightarrow>
     frame_camera voxels =
       (let x0 = Min (vx ` set voxels); x1 = Max (vx ` set voxels);
            y0 = Min (vy ` set voxels); y1 = Max (vy ` set voxels);
            z0 = Min (vz ` set voxels); z1 = Max (vz ` set voxels);
            cx = real_of_int (x0 + x1) / 2; cy = real_of_int (y0 + y1) / 2;
            cz = real_of_int (z0 + z1) / 2;
            size = real_of_int (max (x1 - x0) (max (y1 - y0) (z1 - z0)))
        in \<lparr>camera_position = (cx + size + 15, cy + size + 10, cz + size + 15),
            controls_target = (cx, cy, cz)\<rparr>)"
proof (cases voxels)
  case Nil
  assume "voxels \<noteq> []"
  with Nil show ?thesis by simp
next
  case (Cons v vs)
  show ?thesis
    unfolding Cons frame_camera.simps place_camera_def box_bounds Let_def
    by simp
qed

section \<open>Interpreter: properties\<close>

lemma upto_platform: "[-2 .. 2 :: int] = [-2, -1, 0, 1, 2]"
  by code_simp

lemma call_addBlock_string:
  "addBlock_now s = None \<Longrightarrow> voxels_push s = Array_push \<Longrightarrow> k \<noteq> [] \<Longrightarrow>
     call_addBlock ul x y z (Str k) s =
       (Completed, s\<lparr>placed := placed s @ [\<lparr>vx = x, vy = y, vz = z,
                                            vtype = replace_spaces (toLowerCase ul k)\<rparr>]\<rparr>)"
  by (simp add: call_addBlock_def addBlock_def or_stone_def truthy_def Array_push_def)

lemma fallback_names:
  "replace_spaces (toLowerCase ul (lit ''bedrock'')) = lit ''bedrock''"
  "replace_spaces (toLowerCase ul (lit ''planks_oak'')) = lit ''planks_oak''"
  "lit ''bedrock'' \<noteq> []" "lit ''planks_oak'' \<noteq> []"
  by (simp_all add: replace_spaces_def toLowerCase_def lit_def lower_ascii_def)

text \<open>
  With \<open>addBlock\<close> and \<open>voxels.push\<close> as they are when the closure is entered, the
  fallback appends its 27 voxels.
\<close>

lemma fallback_untouched:
  assumes "addBlock_now s = None" "voxels_push s = Array_push"
  shows "fallback ul s = (Completed, s\<lparr>placed := placed s @ fallback_footprint\<rparr>)"
  unfolding fallback_def fallback_calls_def upto_platform
  using assms
  by (simp add: call_addBlock_string fallback_names fallback_footprint_def bedrock_at_def
      plank_at_def)


lemma run_closure_outcome: "fst (run_closure ul p s) \<noteq> Returned"
proof -
  have prims: "\<And>ps s. fst (exec_prims ul ps s) \<noteq> Returned"
  proof -
    fix ps s show "fst (exec_prims ul ps s) \<noteq> Returned"
      by (induction ul ps s rule: exec_prims.induct)
         (auto simp: call_addBlock_def split: option.splits sum.splits prod.splits outcome.splits)
  qed
  show ?thesis
    using prims
    by (auto simp: run_closure_def call_generateWorld_def
        split: prod.splits outcome.splits option.splits)
qed


lemma init_fallback:
  assumes "run_closure ul p start = (Completed, s)" "placed s = []"
    "addBlock_now s = None" "voxels_push s = Array_push"
  shows "init ul p = rendered (s\<lparr>placed := fallback_footprint\<rparr>)"
  using assms by (simp add: init_def fallback_untouched)




lemma call_addBlock_invocations:
  "invocations (snd (call_addBlock ul x y z t s)) = invocations s"
  by (simp add: call_addBlock_def split: option.splits sum.splits)

lemma exec_prims_invocations: "invocations (snd (exec_prims ul ps s)) = invocations s"
proof (induction ul ps s rule: exec_prims.induct)
  case (2 ul x y z t ps s)
  show ?case
  proof (cases "call_addBlock ul x y z t s")
    case (Pair oc s')
    with 2 [of oc s'] call_addBlock_invocations [of ul x y z t s] show ?thesis
      by (cases oc) auto
  qed
qed auto

lemma exec_body_no_call:
  "CallGenerateWorld \<notin> set ss \<Longrightarrow> invocations (snd (exec_body ul p ss s)) = invocations s"
proof (induction ul p ss s rule: exec_body.induct)
  case (2 ul p q ss s)
  show ?case
  proof (cases "exec_prims ul [q] s")
    case (Pair oc s')
    with 2 exec_prims_invocations [of ul "[q]" s] show ?thesis
      by (cases oc) auto
  qed
qed auto

text \<open>
  Instructions that declare \<open>generateWorld\<close> without calling it, and run to the end of
  the text, get exactly one invocation: the one of the closure.
\<close>

lemma generateWorld_invoked_once:
  assumes "generateWorld p = Some ps" "CallGenerateWorld \<notin> set (body p)"
    and "fst (exec_body ul p (body p) start) = Completed"
  shows "invocations (snd (run_closure ul p start)) = 1"
proof -
  obtain s' where e: "exec_body ul p (body p) start = (Completed, s')"
    using assms(3) by (cases "exec_body ul p (body p) start") auto
  from exec_body_no_call [OF assms(2), of ul p start] e
  have "invocations s' = 0" by (simp add: start_def)
  then show ?thesis
    using exec_prims_invocations [of ul ps "s'\<lparr>invocations := invocations s' + 1\<rparr>"]
    by (simp add: run_closure_def e call_generateWorld_def assms(1))
qed

text \<open>
  C3. The closure calls \<open>generateWorld\<close> whenever the function exists, without looking
  at whether the instructions have called it. Instructions that declare
  \<open>generateWorld\<close> and call it themselves get a second invocation, and every block of
  the function is placed twice.
\<close>

theorem generateWorld_invoked_twice:
  "generateWorld_calls (init (\<lambda>s. s)
       \<lparr>body = [CallGenerateWorld], generateWorld = Some [Place 0 0 0 (Str (lit ''stone''))]\<rparr>) = 2
   \<and> final_voxels (init (\<lambda>s. s)
       \<lparr>body = [CallGenerateWorld], generateWorld = Some [Place 0 0 0 (Str (lit ''stone''))]\<rparr>)
      = [\<lparr>vx = 0, vy = 0, vz = 0, vtype = lit ''stone''\<rparr>, \<lparr>vx = 0, vy = 0, vz = 0, vtype = lit ''stone''\<rparr>]"
  by (simp add: init_def run_closure_def call_generateWorld_def call_addBlock_def start_def
      rendered_def addBlock_def or_stone_def truthy_def Array_push_def stone_normalised
      toLowerCase_def replace_spaces_def lit_def lower_ascii_def Let_def)

text \<open>
  Whenever \<open>init\<close> does not end in its \<open>catch\<close> block, it has framed the camera on the
  voxel list it leaves behind.
\<close>

lemma init_rendered:
  assumes "\<not> error_box_shown (init ul p)"
  shows "view (init ul p) = Some (frame_camera (final_voxels (init ul p)))"
proof -
  have c: "\<And>s. error_box_shown (crashed s)" by (simp add: crashed_def)
  have r: "\<And>s. view (rendered s) = Some (frame_camera (final_voxels (rendered s)))"
    by (simp add: rendered_def)
  show ?thesis
    using assms c r
    by (auto simp: init_def split: prod.splits outcome.splits if_splits)
qed

text \<open>
  C8. \<open>init\<close> frames the camera once, after the instructions and the fallback have
  placed their voxels, on the voxel list it leaves behind. For a non-empty list the
  look-at target is the centre of the axis-aligned bounding box of the voxel positions,
  and the camera sits at the centre plus the largest dimension of the box plus a fixed
  margin (15, 10, 15) on each axis; for the empty list the camera is at (20, 20, 20) and
  looks at the origin. The coordinates are within the bound up to which the code
  computes exactly.
\<close>

theorem init_frames_camera:
  assumes "\<not> error_box_shown (init ul p)"
    and "voxels = final_voxels (init ul p)"
    and "within_exact_range voxels"
  shows "view (init ul p) =
     Some (if voxels = []
           then \<lparr>camera_position = (20, 20, 20), controls_target = (0, 0, 0)\<rparr>
           else (let x0 = Min (vx ` set voxels); x1 = Max (vx ` set voxels);
                     y0 = Min (vy ` set voxels); y1 = Max (vy ` set voxels);
                     z0 = Min (vz ` set voxels); z1 = Max (vz ` set voxels);
                     cx = real_of_int (x0 + x1) / 2; cy = real_of_int (y0 + y1) / 2;
                     cz = real_of_int (z0 + z1) / 2;
                     size = real_of_int (max (x1 - x0) (max (y1 - y0) (z1 - z0)))
                 in \<lparr>camera_position = (cx + size + 15, cy + size + 10, cz + size + 15),
                     controls_target = (cx, cy, cz)\<rparr>))"
proof (cases "voxels = []")
  case True
  with init_rendered [OF assms(1), folded assms(2)] show ?thesis by simp
next
  case False
  with init_rendered [OF assms(1), folded assms(2)] frame_camera_box [OF False]
  show ?thesis by simp
qed

lemma init_span_program:
  "init (\<lambda>s. s) span_program = rendered (start\<lparr>placed := span_example\<rparr>)"
  by (simp add: init_def run_closure_def call_addBlock_def start_def addBlock_def or_stone_def
      truthy_def Array_push_def span_program_def span_example_def replace_spaces_def
      toLowerCase_def lit_def lower_ascii_def)

lemma init_empty_program:
  "init (\<lambda>s. s) \<lparr>body = [], generateWorld = None\<rparr> = rendered (start\<lparr>placed := fallback_footprint\<rparr>)"
  by (rule init_fallback) (simp_all add: run_closure_def start_def)

lemma init_swallowed:
  "init (\<lambda>s. s) \<lparr>body = [Prim (Assign_push (\<lambda>voxels v. Inr voxels))], generateWorld = None\<rparr>
     = rendered (start\<lparr>voxels_push := (\<lambda>voxels v. Inr voxels)\<rparr>)"
  unfolding init_def fallback_def fallback_calls_def upto_platform
  by (simp add: run_closure_def call_addBlock_def start_def addBlock_def or_stone_def truthy_def
      lit_def)

theorem init_frames_camera_witness:
  "view (init (\<lambda>s. s) span_program) =
     Some \<lparr>camera_position = (0 + 4 + 15, 1.5 + 4 + 10, 0 + 4 + 15), controls_target = (0, 1.5, 0)\<rparr>
   \<and> view (init (\<lambda>s. s) \<lparr>body = [], generateWorld = None\<rparr>) =
     Some \<lparr>camera_position = (0 + 4 + 15, 1 + 4 + 10, 0 + 4 + 15), controls_target = (0, 1, 0)\<rparr>
   \<and> view (init (\<lambda>s. s)
        \<lparr>body = [Prim (Assign_push (\<lambda>voxels v. Inr voxels))], generateWorld = None\<rparr>) =
     Some \<lparr>camera_position = (20, 20, 20), controls_target = (0, 0, 0)\<rparr>"
proof -
  have a: "view (init (\<lambda>s. s) span_program) =
     Some \<lparr>camera_position = (0 + 4 + 15, 1.5 + 4 + 10, 0 + 4 + 15), controls_target = (0, 1.5, 0)\<rparr>"
    using init_frames_camera [of "\<lambda>s. s" span_program span_example]
    by (simp add: init_span_program rendered_def start_def span_example_def
        within_exact_range_def Let_def)
  have b: "view (init (\<lambda>s. s) \<lparr>body = [], generateWorld = None\<rparr>) =
     Some \<lparr>camera_position = (0 + 4 + 15, 1 + 4 + 10, 0 + 4 + 15), controls_target = (0, 1, 0)\<rparr>"
    using init_frames_camera [of "\<lambda>s. s" "\<lparr>body = [], generateWorld = None\<rparr>" fallback_footprint]
    by (simp add: init_empty_program rendered_def start_def fallback_footprint_def bedrock_at_def
        plank_at_def within_exact_range_def Let_def)
  have c: "view (init (\<lambda>s. s)
        \<lparr>body = [Prim (Assign_push (\<lambda>voxels v. Inr voxels))], generateWorld = None\<rparr>) =
     Some \<lparr>camera_position = (20, 20, 20), controls_target = (0, 0, 0)\<rparr>"
    using init_frames_camera
      [of "\<lambda>s. s" "\<lparr>body = [Prim (Assign_push (\<lambda>voxels v. Inr voxels))], generateWorld = None\<rparr>" "[]"]
    by (simp add: init_swallowed rendered_def start_def within_exact_range_def)
  from a b c show ?thesis by simp
qed

section \<open>Build guide: properties\<close>

lemma map_of_put: "map_of (put k v obj) = (map_of obj)(k \<mapsto> v)"
  by (induction obj) auto

lemma set_put_pairs: "set (put k v obj) \<subseteq> insert (k, v) (set obj)"
  by (induction obj) (auto split: if_splits)

lemma set_put: "snd ` set (put k v obj) \<subseteq> insert v (snd ` set obj)"
  using set_put_pairs [of k v obj] by force

lemma numeric_put: "numeric obj \<Longrightarrow> 0 < n \<Longrightarrow> numeric (put k (Count n) obj)"
  using set_put [of k "Count n" obj] by (auto simp: numeric_def)

lemma numeric_lookup:
  "numeric obj \<Longrightarrow> map_of obj k = None \<or> (\<exists>n. 0 < n \<and> map_of obj k = Some (Count n))"
proof (cases "map_of obj k")
  case None
  then show ?thesis by simp
next
  case (Some c)
  assume n: "numeric obj"
  from Some have "c \<in> snd ` set obj" by (force dest: map_of_SomeD)
  with n Some show ?thesis by (cases c) (auto simp: numeric_def)
qed

lemma bump_plain:
  assumes "\<not> inherited k" "numeric obj"
  shows "numeric (bump k obj)"
    and "count_of (bump k obj) t = count_of obj t + (if t = k then 1 else 0)"
    and "map_of (bump k obj) k \<noteq> None"
    and "t \<noteq> k \<Longrightarrow> (map_of (bump k obj) t = None) = (map_of obj t = None)"
  using assms numeric_lookup [OF assms(2), of k]
  by (auto simp: bump_def inherited_def numeric_put map_of_put count_of_def)

lemma foldl_bump:
  assumes "\<forall>v \<in> set vs. \<not> inherited (vtype v)" "numeric obj"
  shows "numeric (foldl (\<lambda>counts v. bump (vtype v) counts) obj vs)
    \<and> count_of (foldl (\<lambda>counts v. bump (vtype v) counts) obj vs) t
        = count_of obj t + count_list (map vtype vs) t
    \<and> ((map_of (foldl (\<lambda>counts v. bump (vtype v) counts) obj vs) t = None)
        = (map_of obj t = None \<and> t \<notin> vtype ` set vs))"
  using assms
proof (induction vs arbitrary: obj)
  case Nil
  then show ?case by simp
next
  case (Cons v vs)
  have ni: "\<not> inherited (vtype v)" using Cons.prems(1) by simp
  note b = bump_plain [OF ni Cons.prems(2)]
  have rest: "\<forall>v \<in> set vs. \<not> inherited (vtype v)" using Cons.prems(1) by simp
  from Cons.IH [OF rest b(1)] b(2) [of t] b(3) b(4) [of t]
  show ?case by (cases "t = vtype v") auto
qed

lemma total_materials_counts:
  assumes "\<forall>v \<in> set voxels. \<not> inherited (vtype v)"
  shows "map_of (total_materials voxels) t =
           (if t \<in> vtype ` set voxels then Some (Count (count_list (map vtype voxels) t)) else None)"
proof -
  have n0: "numeric []" by (simp add: numeric_def)
  note f = foldl_bump [OF assms n0, of t]
  let ?r = "total_materials voxels"
  have num: "numeric ?r" and cnt: "count_of ?r t = count_list (map vtype voxels) t"
    and dom: "(map_of ?r t = None) = (t \<notin> vtype ` set voxels)"
    using f by (simp_all add: total_materials_def count_of_def)
  show ?thesis
  proof (cases "t \<in> vtype ` set voxels")
    case True
    with dom numeric_lookup [OF num, of t] cnt show ?thesis
      by (auto simp: count_of_def)
  next
    case False
    with dom show ?thesis by simp
  qed
qed

lemma map_of_put_layer: "map_of (put_layer k v ls) = (map_of ls)(k \<mapsto> v)"
  by (induction ls) auto

lemma keys_put_layer:
  "map fst (put_layer k v ls) = (if k \<in> set (map fst ls) then map fst ls else map fst ls @ [k])"
  by (induction ls) (force split: if_splits)+

lemma collect_layers_step:
  "map_of (add_to_layer ls v) y =
     (if y = vy v then Some (bump (vtype v) (case map_of ls y of None \<Rightarrow> [] | Some obj \<Rightarrow> obj))
      else map_of ls y)"
  by (simp add: add_to_layer_def map_of_put_layer split: option.splits)

lemma foldl_add_to_layer:
  "map_of (foldl add_to_layer ls vs) y =
     (if map_of ls y = None \<and> y \<notin> vy ` set vs then None
      else Some (foldl (\<lambda>counts v. bump (vtype v) counts)
                   (case map_of ls y of None \<Rightarrow> [] | Some obj \<Rightarrow> obj)
                   (filter (\<lambda>v. vy v = y) vs)))"
proof (induction vs arbitrary: ls)
  case Nil
  then show ?case by (auto split: option.splits)
next
  case (Cons v vs)
  show ?case
    by (simp add: Cons.IH collect_layers_step split: option.splits)
qed

lemma layer_is_total_of_slice:
  "map_of (collect_layers voxels) y =
     (if y \<in> vy ` set voxels then Some (total_materials (filter (\<lambda>v. vy v = y) voxels)) else None)"
  by (simp add: collect_layers_def foldl_add_to_layer total_materials_def)

lemma keys_add_to_layer:
  "map fst (add_to_layer ls v) =
     (if vy v \<in> set (map fst ls) then map fst ls else map fst ls @ [vy v])"
  by (simp add: add_to_layer_def keys_put_layer split: option.splits)

lemma keys_collect:
  "distinct (map fst ls) \<Longrightarrow> distinct (map fst (foldl add_to_layer ls vs))
     \<and> set (map fst (foldl add_to_layer ls vs)) = set (map fst ls) \<union> vy ` set vs"
proof (induction vs arbitrary: ls)
  case Nil
  then show ?case by simp
next
  case (Cons v vs)
  have d: "distinct (map fst (add_to_layer ls v))"
    using Cons.prems by (simp add: keys_add_to_layer)
  have s: "set (map fst (add_to_layer ls v)) = insert (vy v) (set (map fst ls))"
    by (auto simp: keys_add_to_layer)
  from Cons.IH [OF d] s show ?case by auto
qed

lemma sortedYs_collect:
  "sortedYs (collect_layers voxels) = sorted_list_of_set (vy ` set voxels)"
proof -
  have "distinct (map fst (collect_layers voxels))"
    and "set (map fst (collect_layers voxels)) = vy ` set voxels"
    using keys_collect [of "[]" voxels] by (simp_all add: collect_layers_def)
  then show ?thesis
    unfolding sortedYs_def
    by (metis distinct_sort set_sort sorted_sort sorted_list_of_set.idem_if_sorted_distinct)
qed

lemma layer_guide_groups:
  "map layer_y (layer_guide voxels) = sorted_list_of_set (vy ` set voxels)"
  "map layer_number (layer_guide voxels) = [1 ..< Suc (card (vy ` set voxels))]"
  "g \<in> set (layer_guide voxels) \<Longrightarrow>
     layer_counts g = entries (total_materials (filter (\<lambda>v. vy v = layer_y g) voxels))"
proof -
  let ?ls = "collect_layers voxels"
  let ?ys = "sortedYs ?ls"
  have ys: "?ys = sorted_list_of_set (vy ` set voxels)" by (rule sortedYs_collect)
  have len: "length ?ys = card (vy ` set voxels)" by (simp add: ys)
  have y: "map layer_y (layer_guide voxels) = ?ys"
    by (simp add: layer_guide_def Let_def o_def split_def map_snd_zip [unfolded o_def])
  then show "map layer_y (layer_guide voxels) = sorted_list_of_set (vy ` set voxels)"
    by (simp add: ys)
  have z: "\<And>(xs :: nat list) (zs :: int list).
      length xs = length zs \<Longrightarrow> map (\<lambda>p. Suc (fst p)) (zip xs zs) = map Suc xs"
    by (induct_tac xs zs rule: list_induct2) auto
  have "map layer_number (layer_guide voxels) = map Suc [0 ..< length ?ys]"
    by (simp add: layer_guide_def Let_def o_def split_def z)
  also have "\<dots> = [1 ..< Suc (length ?ys)]" by (simp add: map_Suc_upt)
  finally show "map layer_number (layer_guide voxels) = [1 ..< Suc (card (vy ` set voxels))]"
    by (simp add: len)
  assume "g \<in> set (layer_guide voxels)"
  then obtain idx y' where g: "g = \<lparr>layer_number = idx + 1, layer_y = y',
        layer_counts = entries (case map_of ?ls y' of Some obj \<Rightarrow> obj | None \<Rightarrow> [])\<rparr>"
    and mem: "y' \<in> set ?ys"
    by (auto simp: layer_guide_def Let_def dest: set_zip_rightD)
  from mem have "y' \<in> vy ` set voxels" by (simp add: ys)
  then show "layer_counts g = entries (total_materials (filter (\<lambda>v. vy v = layer_y g) voxels))"
    by (simp add: g layer_is_total_of_slice)
qed

lemma guide_example_book:
  "generateRecipeBook guide_example =
     \<lparr>list_summary = [(lit ''stone'', Count 2), (lit ''dirt'', Count 1)],
      list_layers =
        [\<lparr>layer_number = 1, layer_y = 0, layer_counts = [(lit ''stone'', Count 2)]\<rparr>,
         \<lparr>layer_number = 2, layer_y = 1, layer_counts = [(lit ''dirt'', Count 1)]\<rparr>]\<rparr>"
  by (simp add: generateRecipeBook_def total_materials_def layer_guide_def collect_layers_def
      add_to_layer_def sortedYs_def bump_def guide_example_def lit_def prototype_functions_def
      entries_def array_index_def Let_def)

lemma empty_book:
  "generateRecipeBook [] = \<lparr>list_summary = [], list_layers = []\<rparr>"
  by (simp add: generateRecipeBook_def total_materials_def layer_guide_def collect_layers_def
      sortedYs_def entries_def Let_def)

text \<open>
  C7. A voxel whose type is \<open>constructor\<close> is not counted: the first read of
  \<open>counts['constructor']\<close> finds the function inherited from \<open>Object.prototype\<close>, and
  \<open>+ 1\<close> turns it into a string. A voxel whose type is \<open>__proto__\<close> leaves no entry
  at all.
\<close>

theorem constructor_is_not_counted:
  "list_summary (generateRecipeBook [\<lparr>vx = 0, vy = 0, vz = 0, vtype = lit ''constructor''\<rparr>])
     = [(lit ''constructor'', Text)]
   \<and> list_summary (generateRecipeBook [\<lparr>vx = 0, vy = 0, vz = 0, vtype = lit ''__proto__''\<rparr>]) = []"
  by (simp add: generateRecipeBook_def total_materials_def bump_def lit_def prototype_functions_def
      entries_def array_index_def)

section \<open>Document post-processor: properties\<close>

subsection \<open>Scanning\<close>

lemma scan_SomeD:
  "scan m s = Some (pre, r) \<Longrightarrow>
     \<exists>post. s = pre @ post \<and> m post = Some r \<and> (\<forall>k < length pre. m (drop k s) = None)"
proof (induction s arbitrary: pre)
  case Nil
  then show ?case by (auto split: option.splits)
next
  case (Cons c cs)
  show ?case
  proof (cases "m (c # cs)")
    case (Some r')
    with Cons.prems show ?thesis by auto
  next
    case None
    with Cons.prems obtain pre' where sc: "scan m cs = Some (pre', r)" and pre: "pre = c # pre'"
      by (auto split: option.splits)
    from Cons.IH [OF sc] obtain post where
      p: "cs = pre' @ post" "m post = Some r" "\<forall>k < length pre'. m (drop k cs) = None"
      by blast
    have "\<forall>k < length pre. m (drop k (c # cs)) = None"
    proof (intro allI impI)
      fix k assume "k < length pre"
      then show "m (drop k (c # cs)) = None"
        using None p(3) pre by (cases k) auto
    qed
    with p pre show ?thesis by auto
  qed
qed


lemma scan_first:
  "m post = Some r \<Longrightarrow> (\<forall>k < length pre. m (drop k (pre @ post)) = None) \<Longrightarrow>
     scan m (pre @ post) = Some (pre, r)"
proof (induction pre)
  case Nil
  then show ?case by (cases post) auto
next
  case (Cons c pre)
  from Cons.prems(2) have here: "m (c # pre @ post) = None" by force
  have "\<forall>k < length pre. m (drop k (pre @ post)) = None"
  proof (intro allI impI)
    fix k assume "k < length pre"
    then have "Suc k < length (c # pre)" by simp
    from Cons.prems(2) [rule_format, OF this] show "m (drop k (pre @ post)) = None" by simp
  qed
  from Cons.IH [OF Cons.prems(1) this] here show ?case by simp
qed

lemma scan_none:
  "(\<forall>k \<le> length s. m (drop k s) = None) \<Longrightarrow> scan m s = None"
proof (induction s)
  case Nil
  then show ?case by simp
next
  case (Cons c cs)
  from Cons.prems have here: "m (c # cs) = None" by force
  have "\<forall>k \<le> length cs. m (drop k cs) = None"
  proof (intro allI impI)
    fix k assume "k \<le> length cs"
    then have "Suc k \<le> length (c # cs)" by simp
    from Cons.prems [rule_format, OF this] show "m (drop k cs) = None" by simp
  qed
  from Cons.IH [OF this] here show ?case by simp
qed

subsection \<open>Prefix tests\<close>

lemma starts_ci_length: "starts_ci pat s \<Longrightarrow> length pat \<le> length s"
  by (induction pat s rule: starts_ci.induct) auto

lemma starts_ci_append: "starts_ci pat w \<Longrightarrow> starts_ci pat (w @ z)"
  by (induction pat w rule: starts_ci.induct) auto

lemma starts_ci_take: "starts_ci pat s \<Longrightarrow> starts_ci pat (take (length pat) s)"
  by (induction pat s rule: starts_ci.induct) auto

lemma starts_ci_foreign:
  "starts_ci pat (w @ c # y) \<Longrightarrow> \<forall>p \<in> set pat. lower_ascii c \<noteq> lower_ascii p \<Longrightarrow>
     starts_ci pat w"
proof (induction pat w rule: starts_ci.induct)
  case (1 s)
  then show ?case by simp
next
  case (2 p ps)
  then show ?case by simp
next
  case (3 p ps c' cs)
  then show ?case by simp
qed

lemma starts_lower:
  "map lower_ascii pat = pat \<Longrightarrow> starts pat (map lower_ascii s) = starts_ci pat s"
proof (induction pat s rule: starts_ci.induct)
  case (1 s)
  then show ?case by simp
next
  case (2 p ps)
  then show ?case by simp
next
  case (3 p ps c cs)
  then show ?case by auto
qed

lemma scan_lower:
  "map lower_ascii pat = pat \<Longrightarrow>
     (scan (literal pat) (map lower_ascii s) = None) = (scan (literal_ci pat) s = None)"
proof (induction s)
  case Nil
  then show ?case using starts_lower [of pat "[]"] by (simp add: literal_def literal_ci_def)
next
  case (Cons c cs)
  then show ?case
    using starts_lower [of pat "c # cs"]
    by (auto simp: literal_def literal_ci_def split: option.splits)
qed

lemma scan_count:
  "pat \<noteq> [] \<Longrightarrow> (scan (literal_ci pat) s = None) = (count_ci pat s = 0)"
proof (induction s)
  case Nil
  then show ?case by (cases pat) (auto simp: literal_ci_def)
next
  case (Cons c cs)
  then show ?case by (auto simp: literal_ci_def split: option.splits)
qed

lemma count_ci_skip:
  "(\<forall>k < length pre. \<not> starts_ci pat (drop k (pre @ s))) \<Longrightarrow>
     count_ci pat (pre @ s) = count_ci pat s"
proof (induction pre)
  case Nil
  then show ?case by simp
next
  case (Cons c pre)
  from Cons.prems have here: "\<not> starts_ci pat (c # pre @ s)" by force
  have "\<forall>k < length pre. \<not> starts_ci pat (drop k (pre @ s))"
  proof (intro allI impI)
    fix k assume "k < length pre"
    then have "Suc k < length (c # pre)" by simp
    from Cons.prems [rule_format, OF this] show "\<not> starts_ci pat (drop k (pre @ s))" by simp
  qed
  from Cons.IH [OF this] here show ?case by simp
qed

text \<open>
  A text that replaces what follows \<open>pre\<close> and starts with a code unit foreign to the
  pattern creates no occurrence that starts inside \<open>pre\<close>.
\<close>

lemma no_new_occurrence:
  assumes old: "\<forall>k < length pre. \<not> starts_ci pat (drop k (pre @ s))"
    and foreign: "\<forall>p \<in> set pat. lower_ascii c \<noteq> lower_ascii p"
  shows "\<forall>k < length pre. \<not> starts_ci pat (drop k (pre @ c # y))"
proof (intro allI impI notI)
  fix k assume k: "k < length pre" and st: "starts_ci pat (drop k (pre @ c # y))"
  from k st have "starts_ci pat (drop k pre @ c # y)" by simp
  from starts_ci_foreign [OF this foreign] have "starts_ci pat (drop k pre @ s)"
    by (rule starts_ci_append)
  with k old show False by simp
qed

subsection \<open>\<open>hideBodyText\<close>\<close>

lemma css_head: "cssToInject = 10 # tl cssToInject"
  by (simp add: cssToInject_def)

lemma starts_ci_compatible: "starts_ci pat (w @ x) \<Longrightarrow> compatible pat w"
  by (induction pat w rule: compatible.induct) auto

lemma compatible_append: "compatible pat (w @ x) \<Longrightarrow> compatible pat w"
  by (induction pat w rule: compatible.induct) auto

lemma free_of_append: "free_of pat a \<Longrightarrow> free_of pat b \<Longrightarrow> free_of pat (a @ b)"
  by (induction a) (auto dest: compatible_append [of _ "_ # _", simplified])

lemma free_of_count: "free_of pat w \<Longrightarrow> count_ci pat (w @ x) = count_ci pat x"
proof (induction w)
  case Nil
  then show ?case by simp
next
  case (Cons c w)
  then have "\<not> starts_ci pat ((c # w) @ x)" using starts_ci_compatible [of pat "c # w" x] by auto
  with Cons show ?case by simp
qed

lemma css_free: "free_of (lit ''</head>'') cssToInject" "free_of (lit ''</body>'') cssToInject"
  unfolding cssToInject_def join_lines.simps
  by (intro free_of_append; simp add: lit_def lower_ascii_def)+

lemma css_no_head: "count_ci (lit ''</head>'') (cssToInject @ x) = count_ci (lit ''</head>'') x"
  by (rule free_of_count [OF css_free(1)])

lemma css_no_body: "count_ci (lit ''</body>'') (cssToInject @ x) = count_ci (lit ''</body>'') x"
  by (rule free_of_count [OF css_free(2)])

lemma seven: "length (t :: nat list) = 7 \<Longrightarrow> \<exists>a b c d e f g. t = [a, b, c, d, e, f, g]"
  by (auto simp: length_Suc_conv numeral_eq_Suc)

lemma lower_tag_chars:
  "lower_ascii 60 = 60" "lower_ascii 47 = 47" "lower_ascii 62 = 62" "lower_ascii 104 = 104"
  "lower_ascii 101 = 101" "lower_ascii 97 = 97" "lower_ascii 100 = 100" "lower_ascii 98 = 98"
  "lower_ascii 111 = 111" "lower_ascii 121 = 121" "lower_ascii 10 = 10"
  by (simp_all add: lower_ascii_def)

lemma head_once:
  assumes "starts_ci (lit ''</head>'') t" "length t = 7"
  shows "count_ci (lit ''</head>'') (t @ x) = Suc (count_ci (lit ''</head>'') x)"
proof -
  from seven [OF assms(2)] obtain a b c d e f g where t: "t = [a, b, c, d, e, f, g]" by blast
  from assms(1) show ?thesis unfolding t
    by (simp add: lit_def lower_tag_chars)
qed

lemma body_once:
  assumes "starts_ci (lit ''</body>'') t" "length t = 7"
  shows "count_ci (lit ''</body>'') (t @ x) = Suc (count_ci (lit ''</body>'') x)"
proof -
  from seven [OF assms(2)] obtain a b c d e f g where t: "t = [a, b, c, d, e, f, g]" by blast
  from assms(1) show ?thesis unfolding t
    by (simp add: lit_def lower_tag_chars)
qed

lemma tag_self:
  "starts_ci (lit ''</head>'') (lit ''</head>'')" "starts_ci (lit ''</body>'') (lit ''</body>'')"
  "length (lit ''</head>'') = 7" "length (lit ''</body>'') = 7"
  "\<forall>p \<in> set (lit ''</head>''). lower_ascii 10 \<noteq> lower_ascii p"
  "\<forall>p \<in> set (lit ''</body>''). lower_ascii 10 \<noteq> lower_ascii p"
  "map lower_ascii (lit ''</head>'') = lit ''</head>''"
  "map lower_ascii (lit ''</body>'') = lit ''</body>''"
  by (simp_all add: lit_def lower_tag_chars)

text \<open>The replacement of the first tag, for either tag.\<close>

lemma replace_first_tag:
  assumes once: "\<And>t x. starts_ci tag t \<Longrightarrow> length t = 7 \<Longrightarrow> count_ci tag (t @ x) = Suc (count_ci tag x)"
    and css: "\<And>x. count_ci tag (cssToInject @ x) = count_ci tag x"
    and self: "starts_ci tag tag" "length tag = 7"
    and foreign: "\<forall>p \<in> set tag. lower_ascii 10 \<noteq> lower_ascii p"
    and found: "0 < count_ci tag html"
  shows "\<exists>before t after. html = before @ t @ after \<and> length t = 7 \<and> starts_ci tag t
           \<and> (\<forall>k < length before. \<not> starts_ci tag (drop k html))
           \<and> replace_first_ci tag (cssToInject @ tag) html = before @ cssToInject @ tag @ after
           \<and> count_ci tag (replace_first_ci tag (cssToInject @ tag) html) = count_ci tag html"
proof -
  have ne: "tag \<noteq> []" using self(2) by auto
  from found scan_count [OF ne, of html] obtain before rest where
    sc: "scan (literal_ci tag) html = Some (before, rest)" by (cases "scan (literal_ci tag) html") auto
  from scan_SomeD [OF sc] obtain post where
    html: "html = before @ post" and m: "literal_ci tag post = Some rest"
    and first: "\<forall>k < length before. literal_ci tag (drop k html) = None" by blast
  from m have st: "starts_ci tag post" and rest: "rest = drop 7 post"
    by (auto simp: literal_ci_def self(2) split: if_splits)
  define t where "t = take 7 post"
  have len: "length t = 7" using starts_ci_length [OF st] by (simp add: t_def self(2))
  have stt: "starts_ci tag t" using starts_ci_take [OF st] by (simp add: t_def self(2))
  have post: "post = t @ rest" by (simp add: t_def rest)
  have first': "\<forall>k < length before. \<not> starts_ci tag (drop k (before @ t @ rest))"
    using first by (auto simp: literal_ci_def html post split: if_splits)
  have out: "replace_first_ci tag (cssToInject @ tag) html = before @ cssToInject @ tag @ rest"
    by (simp add: replace_first_ci_def sc)
  have e: "cssToInject @ tag @ rest = 10 # (tl cssToInject @ tag @ rest)"
    by (subst css_head) simp
  have first_out: "\<forall>k < length before. \<not> starts_ci tag (drop k (before @ cssToInject @ tag @ rest))"
    unfolding e by (rule no_new_occurrence [OF first' foreign])
  have "count_ci tag html = count_ci tag (t @ rest)"
    unfolding html post by (rule count_ci_skip [OF first'])
  also have "\<dots> = Suc (count_ci tag rest)" by (rule once [OF stt len])
  finally have c_in: "count_ci tag html = Suc (count_ci tag rest)" .
  have "count_ci tag (before @ cssToInject @ tag @ rest) = count_ci tag (cssToInject @ tag @ rest)"
    by (rule count_ci_skip [OF first_out])
  also have "\<dots> = count_ci tag (tag @ rest)" by (rule css)
  also have "\<dots> = Suc (count_ci tag rest)" by (rule once [OF self])
  finally have c_out: "count_ci tag (before @ cssToInject @ tag @ rest) = Suc (count_ci tag rest)" .
  show ?thesis
    using html post len stt first' out c_in c_out by (intro exI [of _ before] exI [of _ t] exI [of _ rest]) simp
qed

lemma includes_count:
  assumes "map lower_ascii tag = tag" "tag \<noteq> []"
  shows "js_includes (map lower_ascii html) tag = (0 < count_ci tag html)"
  using scan_lower [OF assms(1), of html] scan_count [OF assms(2), of html]
  by (auto simp: js_includes_def)

text \<open>
  C6, as the source has it. The hypotheses say that the built-in lowercasing agrees with
  ASCII lowercasing on whether the tag occurs (no character beyond ASCII lowercases to
  a character of the tags); they hold by definition for an ASCII document.
  \<^item> When \<open></head>\<close> occurs (in any case), the style block followed by \<open></head>\<close>
    replaces the first occurrence; the number of \<open></head>\<close> tags is unchanged, so a
    document with exactly one keeps exactly one, with the style block right before it.
  \<^item> When \<open></head>\<close> does not occur and \<open></body>\<close> does, the same happens at the first
    \<open></body>\<close>.
  \<^item> When neither occurs, the style block is appended and nothing else changes.
\<close>

theorem hideBodyText_injection:
  assumes "js_includes (toLowerCase ul html) (lit ''</head>'')
             = js_includes (map lower_ascii html) (lit ''</head>'')"
    and "js_includes (toLowerCase ul html) (lit ''</body>'')
             = js_includes (map lower_ascii html) (lit ''</body>'')"
  shows "(0 < count_ci (lit ''</head>'') html \<longrightarrow>
           (\<exists>before t after. html = before @ t @ after \<and> length t = 7
              \<and> starts_ci (lit ''</head>'') t
              \<and> (\<forall>k < length before. \<not> starts_ci (lit ''</head>'') (drop k html))
              \<and> hideBodyText ul html = before @ cssToInject @ lit ''</head>'' @ after)
           \<and> count_ci (lit ''</head>'') (hideBodyText ul html) = count_ci (lit ''</head>'') html)
       \<and> (count_ci (lit ''</head>'') html = 0 \<and> 0 < count_ci (lit ''</body>'') html \<longrightarrow>
           (\<exists>before t after. html = before @ t @ after \<and> length t = 7
              \<and> starts_ci (lit ''</body>'') t
              \<and> (\<forall>k < length before. \<not> starts_ci (lit ''</body>'') (drop k html))
              \<and> hideBodyText ul html = before @ cssToInject @ lit ''</body>'' @ after))
       \<and> (count_ci (lit ''</head>'') html = 0 \<and> count_ci (lit ''</body>'') html = 0 \<longrightarrow>
           hideBodyText ul html = html @ cssToInject)"
proof -
  have ne: "lit ''</head>'' \<noteq> []" "lit ''</body>'' \<noteq> []" by (simp_all add: lit_def)
  have ih: "js_includes (toLowerCase ul html) (lit ''</head>'') = (0 < count_ci (lit ''</head>'') html)"
    using assms(1) includes_count [OF tag_self(7) ne(1), of html] by simp
  have ib: "js_includes (toLowerCase ul html) (lit ''</body>'') = (0 < count_ci (lit ''</body>'') html)"
    using assms(2) includes_count [OF tag_self(8) ne(2), of html] by simp
  have head: "0 < count_ci (lit ''</head>'') html \<Longrightarrow>
      \<exists>before t after. html = before @ t @ after \<and> length t = 7 \<and> starts_ci (lit ''</head>'') t
           \<and> (\<forall>k < length before. \<not> starts_ci (lit ''</head>'') (drop k html))
           \<and> replace_first_ci (lit ''</head>'') (cssToInject @ lit ''</head>'') html
                = before @ cssToInject @ lit ''</head>'' @ after
           \<and> count_ci (lit ''</head>'') (replace_first_ci (lit ''</head>'') (cssToInject @ lit ''</head>'') html)
                = count_ci (lit ''</head>'') html"
    by (rule replace_first_tag [OF head_once css_no_head tag_self(1) tag_self(3) tag_self(5)])
  have body: "0 < count_ci (lit ''</body>'') html \<Longrightarrow>
      \<exists>before t after. html = before @ t @ after \<and> length t = 7 \<and> starts_ci (lit ''</body>'') t
           \<and> (\<forall>k < length before. \<not> starts_ci (lit ''</body>'') (drop k html))
           \<and> replace_first_ci (lit ''</body>'') (cssToInject @ lit ''</body>'') html
                = before @ cssToInject @ lit ''</body>'' @ after
           \<and> count_ci (lit ''</body>'') (replace_first_ci (lit ''</body>'') (cssToInject @ lit ''</body>'') html)
                = count_ci (lit ''</body>'') html"
    by (rule replace_first_tag [OF body_once css_no_body tag_self(2) tag_self(4) tag_self(6)])
  have h: "0 < count_ci (lit ''</head>'') html \<Longrightarrow>
      hideBodyText ul html = replace_first_ci (lit ''</head>'') (cssToInject @ lit ''</head>'') html"
    by (simp add: hideBodyText_def ih)
  have b: "count_ci (lit ''</head>'') html = 0 \<Longrightarrow> 0 < count_ci (lit ''</body>'') html \<Longrightarrow>
      hideBodyText ul html = replace_first_ci (lit ''</body>'') (cssToInject @ lit ''</body>'') html"
    by (simp add: hideBodyText_def ih ib)
  have n: "count_ci (lit ''</head>'') html = 0 \<Longrightarrow> count_ci (lit ''</body>'') html = 0 \<Longrightarrow>
      hideBodyText ul html = html @ cssToInject"
    by (simp add: hideBodyText_def ih ib)
  show ?thesis
  proof (intro conjI impI)
    assume p: "0 < count_ci (lit ''</head>'') html"
    from head [OF p] obtain before t after where
      d: "html = before @ t @ after" "length t = 7" "starts_ci (lit ''</head>'') t"
        "\<forall>k < length before. \<not> starts_ci (lit ''</head>'') (drop k html)"
        "replace_first_ci (lit ''</head>'') (cssToInject @ lit ''</head>'') html
           = before @ cssToInject @ lit ''</head>'' @ after"
      and c: "count_ci (lit ''</head>'') (replace_first_ci (lit ''</head>'') (cssToInject @ lit ''</head>'') html)
           = count_ci (lit ''</head>'') html"
      by blast
    from d(5) have "hideBodyText ul html = before @ cssToInject @ lit ''</head>'' @ after"
      by (simp add: h [OF p])
    with d(1-4)
    show "\<exists>before t after. html = before @ t @ after \<and> length t = 7
              \<and> starts_ci (lit ''</head>'') t
              \<and> (\<forall>k < length before. \<not> starts_ci (lit ''</head>'') (drop k html))
              \<and> hideBodyText ul html = before @ cssToInject @ lit ''</head>'' @ after"
      by blast
    from c show "count_ci (lit ''</head>'') (hideBodyText ul html) = count_ci (lit ''</head>'') html"
      by (simp add: h [OF p])
  next
    assume p: "count_ci (lit ''</head>'') html = 0 \<and> 0 < count_ci (lit ''</body>'') html"
    then have p1: "count_ci (lit ''</head>'') html = 0" and p2: "0 < count_ci (lit ''</body>'') html"
      by simp_all
    from body [OF p2] obtain before t after where
      d: "html = before @ t @ after" "length t = 7" "starts_ci (lit ''</body>'') t"
        "\<forall>k < length before. \<not> starts_ci (lit ''</body>'') (drop k html)"
        "replace_first_ci (lit ''</body>'') (cssToInject @ lit ''</body>'') html
           = before @ cssToInject @ lit ''</body>'' @ after"
      by blast
    from d(5) have "hideBodyText ul html = before @ cssToInject @ lit ''</body>'' @ after"
      by (simp add: b [OF p1 p2])
    with d(1-4)
    show "\<exists>before t after. html = before @ t @ after \<and> length t = 7
              \<and> starts_ci (lit ''</body>'') t
              \<and> (\<forall>k < length before. \<not> starts_ci (lit ''</body>'') (drop k html))
              \<and> hideBodyText ul html = before @ cssToInject @ lit ''</body>'' @ after"
      by blast
  next
    assume "count_ci (lit ''</head>'') html = 0 \<and> count_ci (lit ''</body>'') html = 0"
    then show "hideBodyText ul html = html @ cssToInject" using n by simp
  qed
qed

theorem hideBodyText_injection_witness:
  "hideBodyText (\<lambda>s. s) (lit ''<HTML><Head></HEAD><body>Hi</body></html>'')
     = lit ''<HTML><Head>'' @ cssToInject @ lit ''</head>'' @ lit ''<body>Hi</body></html>''
   \<and> count_ci (lit ''</head>'') (hideBodyText (\<lambda>s. s) (lit ''<HTML><Head></HEAD><body>Hi</body></html>'')) = 1
   \<and> hideBodyText (\<lambda>s. s) (lit ''<p>Hi</p></body>'') = lit ''<p>Hi</p>'' @ cssToInject @ lit ''</body>''
   \<and> hideBodyText (\<lambda>s. s) (lit ''<p>Hi</p>'') = lit ''<p>Hi</p>'' @ cssToInject"
proof -
  have a: "list_all (\<lambda>c. c < 128) (lit ''<HTML><Head></HEAD><body>Hi</body></html>'')"
    "list_all (\<lambda>c. c < 128) (lit ''<p>Hi</p></body>'')"
    "list_all (\<lambda>c. c < 128) (lit ''<p>Hi</p>'')"
    by (simp_all add: lit_def)
  note t1 = hideBodyText_injection [of "\<lambda>s. s" "lit ''<HTML><Head></HEAD><body>Hi</body></html>''",
      unfolded toLowerCase_ascii [OF a(1)], OF refl refl]
  note t2 = hideBodyText_injection [of "\<lambda>s. s" "lit ''<p>Hi</p></body>''",
      unfolded toLowerCase_ascii [OF a(2)], OF refl refl]
  note t3 = hideBodyText_injection [of "\<lambda>s. s" "lit ''<p>Hi</p>''",
      unfolded toLowerCase_ascii [OF a(3)], OF refl refl]
  have c1: "count_ci (lit ''</head>'') (lit ''<HTML><Head></HEAD><body>Hi</body></html>'') = 1"
    by (simp add: lit_def lower_ascii_def)
  have c2: "count_ci (lit ''</head>'') (lit ''<p>Hi</p></body>'') = 0"
    "count_ci (lit ''</body>'') (lit ''<p>Hi</p></body>'') = 1"
    by (simp_all add: lit_def lower_ascii_def)
  have c3: "count_ci (lit ''</head>'') (lit ''<p>Hi</p>'') = 0"
    "count_ci (lit ''</body>'') (lit ''<p>Hi</p>'') = 0"
    by (simp_all add: lit_def lower_ascii_def)
  have r1: "hideBodyText (\<lambda>s. s) (lit ''<HTML><Head></HEAD><body>Hi</body></html>'')
     = lit ''<HTML><Head>'' @ cssToInject @ lit ''</head>'' @ lit ''<body>Hi</body></html>''"
    by (simp add: hideBodyText_def toLowerCase_def js_includes_def replace_first_ci_def
        literal_def literal_ci_def lit_def lower_ascii_def)
  have r2: "hideBodyText (\<lambda>s. s) (lit ''<p>Hi</p></body>'') = lit ''<p>Hi</p>'' @ cssToInject @ lit ''</body>''"
    by (simp add: hideBodyText_def toLowerCase_def js_includes_def replace_first_ci_def
        literal_def literal_ci_def lit_def lower_ascii_def)
  from t1 c1 have k1: "count_ci (lit ''</head>'')
      (hideBodyText (\<lambda>s. s) (lit ''<HTML><Head></HEAD><body>Hi</body></html>'')) = 1"
    by simp
  from t3 c3 have r3: "hideBodyText (\<lambda>s. s) (lit ''<p>Hi</p>'') = lit ''<p>Hi</p>'' @ cssToInject"
    by simp
  from t2 have True by simp
  from r1 k1 r2 r3 show ?thesis by simp
qed

text \<open>
  A document with two \<open></head>\<close> tags keeps both: the output does not contain exactly
  one.
\<close>

theorem hideBodyText_two_heads:
  "count_ci (lit ''</head>'') (lit ''</head></head>'') = 2
   \<and> hideBodyText (\<lambda>s. s) (lit ''</head></head>'') = cssToInject @ lit ''</head></head>''
   \<and> count_ci (lit ''</head>'') (hideBodyText (\<lambda>s. s) (lit ''</head></head>'')) = 2"
proof -
  have out: "hideBodyText (\<lambda>s. s) (lit ''</head></head>'') = cssToInject @ lit ''</head></head>''"
    by (simp add: hideBodyText_def toLowerCase_def js_includes_def replace_first_ci_def
        literal_def literal_ci_def lit_def lower_ascii_def)
  have two: "count_ci (lit ''</head>'') (lit ''</head></head>'') = 2"
    by (simp add: lit_def lower_ascii_def)
  show ?thesis unfolding out css_no_head using two by simp
qed

subsection \<open>\<open>extractHtmlFromText\<close>\<close>


lemma scan_SomeE:
  assumes "scan m s = Some (pre, r)"
  obtains post where "s = pre @ post" "m post = Some r" "\<forall>k < length pre. m (drop k s) = None"
  using scan_SomeD [OF assms] by (elim exE conjE)


lemma starts_ci_prefix: "starts_ci pat (a @ b) \<Longrightarrow> length pat \<le> length a \<Longrightarrow> starts_ci pat a"
  by (induction pat a rule: starts_ci.induct) auto








lemma starts_length: "starts pat s \<Longrightarrow> length pat \<le> length s"
  by (induction pat s rule: starts.induct) auto

lemma starts_append: "starts pat w \<Longrightarrow> starts pat (w @ z)"
  by (induction pat w rule: starts.induct) auto

lemma starts_take: "starts pat s \<Longrightarrow> take (length pat) s = pat"
  by (induction pat s rule: starts.induct) auto

lemma starts_self: "starts pat (pat @ z)"
  by (induction pat) auto

lemma starts_foreign: "starts pat (w @ c # y) \<Longrightarrow> c \<notin> set pat \<Longrightarrow> starts pat w"
  by (induction pat w rule: starts.induct) auto

lemma starts_head: "starts (p # ps) (c # cs) \<Longrightarrow> c = p"
  by simp


lemma ws_split: "\<exists>w. r = w @ dropWhile is_ws r \<and> list_all is_ws w"
proof -
  have "r = takeWhile is_ws r @ dropWhile is_ws r" by simp
  moreover have "list_all is_ws (takeWhile is_ws r)"
    by (simp add: list_all_iff) (meson set_takeWhileD)
  ultimately show ?thesis by blast
qed














subsection \<open>\<open>zoomCamera\<close>\<close>

lemma number_suffix: "number s = Some (x, r) \<Longrightarrow> s = x @ r"
proof -
  assume a: "number s = Some (x, r)"
  define sign :: jsstring where "sign = (if starts [45] s then [45] else [])"
  define u where "u = drop (length sign) s"
  define ip where "ip = takeWhile is_digit u"
  define r0 where "r0 = dropWhile is_digit u"
  define fp where "fp = (case r0 of [] \<Rightarrow> [] | c # r' \<Rightarrow> if c = 46 then takeWhile is_digit r' else [])"
  have s: "s = sign @ u"
  proof (cases "starts [45] s")
    case True
    then obtain s' where "s = 45 # s'" by (cases s) auto
    then show ?thesis using True by (simp add: sign_def u_def)
  next
    case False
    then show ?thesis by (simp add: sign_def u_def)
  qed
  have u: "u = ip @ r0" by (simp add: ip_def r0_def)
  have n: "number s = (if fp \<noteq> [] then Some (sign @ ip @ 46 # fp, drop (Suc (length fp)) r0)
         else if ip \<noteq> [] then Some (sign @ ip, r0) else None)"
    by (simp add: number_def Let_def sign_def u_def ip_def r0_def fp_def)
  show ?thesis
  proof (cases "fp = []")
    case True
    with a n have "x = sign @ ip" "r = r0" by (auto split: if_splits)
    then show ?thesis by (simp only: s u append_assoc)
  next
    case False
    with a n have x: "x = sign @ ip @ 46 # fp" and r: "r = drop (Suc (length fp)) r0" by auto
    from False obtain r' where r0: "r0 = 46 # r'" and fp': "fp = takeWhile is_digit r'"
      by (auto simp: fp_def split: list.splits if_splits)
    have "r' = fp @ r" by (simp add: r r0 fp' dropWhile_eq_drop [symmetric])
    then have "r0 = 46 # fp @ r" by (simp only: r0)
    then show ?thesis by (simp only: s u x append_assoc append_Cons)
  qed
qed

lemma token_suffix: "token ch s = Some r \<Longrightarrow> length r < length s"
proof -
  assume "token ch s = Some r"
  then have "dropWhile is_ws s = ch # r" by (auto simp: token_def split: list.splits if_splits)
  then have "length (dropWhile is_ws s) = Suc (length r)" by simp
  moreover have "length (dropWhile is_ws s) \<le> length s" by (rule length_dropWhile_le)
  ultimately show ?thesis by simp
qed

lemma argument_suffix: "argument s = Some (x, r) \<Longrightarrow> length r \<le> length s"
proof -
  assume "argument s = Some (x, r)"
  then have "dropWhile is_ws s = x @ r" by (simp add: argument_def number_suffix)
  then have "length (dropWhile is_ws s) = length x + length r" by simp
  moreover have "length (dropWhile is_ws s) \<le> length s" by (rule length_dropWhile_le)
  ultimately show ?thesis by simp
qed

lemma camera_call_at_shorter: "camera_call_at s = Some (xyz, rest) \<Longrightarrow> length rest < length s"
proof -
  assume a: "camera_call_at s = Some (xyz, rest)"
  then obtain a1 x b c y d e z f where
    h: "literal (lit ''camera.position.set('') s = Some a1" "argument a1 = Some (x, b)"
      "token 44 b = Some c" "argument c = Some (y, d)" "token 44 d = Some e"
      "argument e = Some (z, f)" "token 41 f = Some rest"
    by (auto simp: camera_call_at_def split: option.splits)
  from h(1) have "length a1 \<le> length s" by (auto simp: literal_def split: if_splits)
  with argument_suffix [OF h(2)] token_suffix [OF h(3)] argument_suffix [OF h(4)]
    token_suffix [OF h(5)] argument_suffix [OF h(6)] token_suffix [OF h(7)]
  show ?thesis by simp
qed

lemma scan_camera_shorter:
  "scan camera_call_at html = Some (before, xyz, rest) \<Longrightarrow> length rest < length html"
proof -
  assume "scan camera_call_at html = Some (before, xyz, rest)"
  then obtain post where "html = before @ post" "camera_call_at post = Some (xyz, rest)"
    by (rule scan_SomeE)
  with camera_call_at_shorter [of post xyz rest] show ?thesis by simp
qed

lemma zoomCamera_unfold:
  "zoomCamera ops html zoomFactor =
     (case scan camera_call_at html of
        None \<Rightarrow> html
      | Some (before, (x, y, z), rest) \<Rightarrow>
          before @ new_call ops zoomFactor x y z @ zoomCamera ops rest zoomFactor)"
  by (subst zoomCamera.simps) (auto split: option.splits dest: scan_camera_shorter)

lemma digits_run:
  assumes "list_all is_digit ds" "case r of [] \<Rightarrow> True | c # r' \<Rightarrow> \<not> is_digit c"
  shows "takeWhile is_digit (ds @ r) = ds" "dropWhile is_digit (ds @ r) = r"
proof -
  have a: "\<And>x. x \<in> set ds \<Longrightarrow> is_digit x" using assms(1) by (simp add: list_all_iff)
  have t: "takeWhile is_digit r = []" using assms(2) by (cases r) auto
  have d: "dropWhile is_digit r = r" using assms(2) by (cases r) auto
  show "takeWhile is_digit (ds @ r) = ds" using takeWhile_append2 [of ds is_digit r] a t by simp
  show "dropWhile is_digit (ds @ r) = r" using dropWhile_append2 [of ds is_digit r] a d by simp
qed

lemma takeWhile_digits: "list_all is_digit (takeWhile is_digit u)"
  by (simp add: list_all_iff) (meson set_takeWhileD)

lemma special_chars:
  "\<not> is_digit 46" "\<not> is_digit 45" "\<not> is_digit 44" "\<not> is_digit 41"
  "\<not> is_ws 46" "\<not> is_ws 45" "\<not> is_ws 44" "\<not> is_ws 41"
  "is_ws c \<Longrightarrow> \<not> is_digit c" "is_ws c \<Longrightarrow> c \<noteq> 46" "is_digit c \<Longrightarrow> \<not> is_ws c"
  "is_digit c \<Longrightarrow> c \<noteq> 45"
  by (auto simp: is_digit_def is_ws_def)

text \<open>The shape of an unsigned numeral: digits, or digits, a point and at least one digit.\<close>

lemma unsigned_shape:
  "unsigned_numeral u =
     (\<exists>ip fp. list_all is_digit ip \<and> list_all is_digit fp
        \<and> ((u = ip \<and> ip \<noteq> []) \<or> (u = ip @ 46 # fp \<and> fp \<noteq> [])))"
proof
  assume a: "unsigned_numeral u"
  let ?ip = "takeWhile is_digit u"
  have u: "u = ?ip @ dropWhile is_digit u" by simp
  show "\<exists>ip fp. list_all is_digit ip \<and> list_all is_digit fp
        \<and> ((u = ip \<and> ip \<noteq> []) \<or> (u = ip @ 46 # fp \<and> fp \<noteq> []))"
  proof (cases "dropWhile is_digit u")
    case Nil
    with a have tu: "takeWhile is_digit u = u" and ne: "u \<noteq> []"
      by (simp_all add: unsigned_numeral_def)
    have "list_all is_digit u" using takeWhile_digits [of u] by (simp only: tu)
    then show ?thesis using ne by (intro exI [of _ u] exI [of _ "[]"]) simp
  next
    case (Cons c fp)
    with a have c: "c = 46" "fp \<noteq> []" "list_all is_digit fp" by (simp_all add: unsigned_numeral_def)
    have "?ip @ dropWhile is_digit u = ?ip @ 46 # fp" by (simp only: Cons c(1))
    then have "u = ?ip @ 46 # fp" by simp
    then show ?thesis using takeWhile_digits [of u] c(2,3) by (intro exI [of _ ?ip] exI [of _ fp]) simp
  qed
next
  assume "\<exists>ip fp. list_all is_digit ip \<and> list_all is_digit fp
        \<and> ((u = ip \<and> ip \<noteq> []) \<or> (u = ip @ 46 # fp \<and> fp \<noteq> []))"
  then obtain ip fp where d: "list_all is_digit ip" "list_all is_digit fp"
    and u: "(u = ip \<and> ip \<noteq> []) \<or> (u = ip @ 46 # fp \<and> fp \<noteq> [])" by (elim exE conjE)
  from u show "unsigned_numeral u"
  proof
    assume e: "u = ip \<and> ip \<noteq> []"
    then have ui: "u = ip" and ne: "ip \<noteq> []" by simp_all
    have dn: "dropWhile is_digit ip = []" using d(1) by (simp add: list_all_iff)
    show ?thesis unfolding unsigned_numeral_def ui dn by (simp add: ne)
  next
    assume e: "u = ip @ 46 # fp \<and> fp \<noteq> []"
    then have ui: "u = ip @ 46 # fp" and ne: "fp \<noteq> []" by simp_all
    have dn: "dropWhile is_digit (ip @ 46 # fp) = 46 # fp"
      by (rule digits_run(2) [OF d(1)]) (simp add: special_chars)
    show ?thesis unfolding unsigned_numeral_def ui dn by (simp add: ne d(2))
  qed
qed

text \<open>What \<open>number\<close> computes, in terms of the parts of the text.\<close>

lemma number_parts:
  assumes "list_all is_digit ip" "list_all is_digit fp"
    and "case r of [] \<Rightarrow> True | c # r' \<Rightarrow> \<not> is_digit c \<and> c \<noteq> 46"
    and "sign = [] \<or> sign = [45]"
  shows "fp \<noteq> [] \<Longrightarrow> number (sign @ ip @ 46 # fp @ r) = Some (sign @ ip @ 46 # fp, r)"
    and "ip \<noteq> [] \<Longrightarrow> number (sign @ ip @ r) = Some (sign @ ip, r)"
proof -
  have r1: "case r of [] \<Rightarrow> True | c # r' \<Rightarrow> \<not> is_digit c" using assms(3) by (cases r) auto
  have nf: "(case r of [] \<Rightarrow> [] | c # r' \<Rightarrow> if c = 46 then takeWhile is_digit r' else []) = []"
    using assms(3) by (cases r) auto
  have hd_ip: "\<And>t. ip \<noteq> [] \<Longrightarrow> \<not> starts [45] (ip @ t)"
    using assms(1) by (cases ip) (auto simp: special_chars)
  {
    assume fp: "fp \<noteq> []"
    have sg: "(if starts [45] (sign @ ip @ 46 # fp @ r) then [45] else []) = sign"
      using assms(4) hd_ip [of "46 # fp @ r"] by (cases "ip = []") auto
    have t: "takeWhile is_digit (ip @ 46 # fp @ r) = ip" "dropWhile is_digit (ip @ 46 # fp @ r) = 46 # fp @ r"
      using digits_run [OF assms(1), of "46 # fp @ r"] by (simp_all add: special_chars)
    have f: "takeWhile is_digit (fp @ r) = fp" using digits_run(1) [OF assms(2) r1] .
    show "number (sign @ ip @ 46 # fp @ r) = Some (sign @ ip @ 46 # fp, r)"
      unfolding number_def sg Let_def by (simp add: t f fp)
  }
  {
    assume ip: "ip \<noteq> []"
    have sg: "(if starts [45] (sign @ ip @ r) then [45] else []) = sign"
      using assms(4) hd_ip [OF ip, of r] by auto
    have t: "takeWhile is_digit (ip @ r) = ip" "dropWhile is_digit (ip @ r) = r"
      using digits_run [OF assms(1) r1] by simp_all
    show "number (sign @ ip @ r) = Some (sign @ ip, r)"
      unfolding number_def sg Let_def by (simp add: t nf ip)
  }
qed

lemma number_sound:
  assumes "number s = Some (x, r)"
  shows "s = x @ r \<and> is_numeral x"
proof -
  define sign :: jsstring where "sign = (if starts [45] s then [45] else [])"
  define u where "u = drop (length sign) s"
  define ip where "ip = takeWhile is_digit u"
  define r0 where "r0 = dropWhile is_digit u"
  define fp where "fp = (case r0 of [] \<Rightarrow> [] | c # r' \<Rightarrow> if c = 46 then takeWhile is_digit r' else [])"
  have n: "number s = (if fp \<noteq> [] then Some (sign @ ip @ 46 # fp, drop (Suc (length fp)) r0)
         else if ip \<noteq> [] then Some (sign @ ip, r0) else None)"
    by (simp add: number_def Let_def sign_def u_def ip_def r0_def fp_def)
  have dip: "list_all is_digit ip" unfolding ip_def by (rule takeWhile_digits)
  have dfp: "list_all is_digit fp"
    using takeWhile_digits by (auto simp: fp_def split: list.splits)
  have sg: "sign = [] \<or> sign = [45]" by (simp add: sign_def)
  have shape: "(x = sign @ ip \<and> ip \<noteq> []) \<or> (x = sign @ ip @ 46 # fp \<and> fp \<noteq> [])"
    using assms n by (auto split: if_splits)
  then have un: "unsigned_numeral (drop (length sign) x)"
    using dip dfp by (subst unsigned_shape) (intro exI [of _ ip] exI [of _ fp], auto)
  have first: "sign = [] \<Longrightarrow> \<not> starts [45] x"
  proof -
    assume e: "sign = []"
    then have ns: "\<not> starts [45] s" by (auto simp: sign_def split: if_splits)
    have "s = x @ r" using assms by (rule number_suffix)
    with ns starts_append [of "[45]" x r] show "\<not> starts [45] x" by auto
  qed
  have xne: "x \<noteq> []" using shape by auto
  have "is_numeral x"
  proof (cases "sign = []")
    case True
    from xne obtain c x' where x: "x = c # x'" by (cases x) auto
    with first [OF True] have "c \<noteq> 45" by simp
    with un True x show ?thesis by (simp add: is_numeral_def)
  next
    case False
    with sg have s45: "sign = [45]" by simp
    from shape obtain x' where x: "x = 45 # x'" by (auto simp: s45)
    with un s45 show ?thesis by (simp add: is_numeral_def)
  qed
  with number_suffix [OF assms] show ?thesis by simp
qed

lemma number_complete:
  assumes "is_numeral x" "case r of [] \<Rightarrow> True | c # r' \<Rightarrow> \<not> is_digit c \<and> c \<noteq> 46"
  shows "number (x @ r) = Some (x, r)"
proof -
  from assms(1) obtain sign u where x: "x = sign @ u" and sg: "sign = [] \<or> sign = [45]"
    and un: "unsigned_numeral u"
  proof (cases x)
    case Nil
    with assms(1) show ?thesis by (simp add: is_numeral_def)
  next
    case (Cons c x')
    show ?thesis
    proof (cases "c = 45")
      case True
      with Cons assms(1) have "unsigned_numeral x'" by (simp add: is_numeral_def)
      with that [of "[45]" x'] Cons True show ?thesis by simp
    next
      case False
      with Cons assms(1) have "unsigned_numeral x" by (simp add: is_numeral_def)
      with that [of "[]" x] show ?thesis by simp
    qed
  qed
  from un obtain ip fp where d: "list_all is_digit ip" "list_all is_digit fp"
    and u: "(u = ip \<and> ip \<noteq> []) \<or> (u = ip @ 46 # fp \<and> fp \<noteq> [])"
    unfolding unsigned_shape by (elim exE conjE)
  from u show ?thesis
  proof
    assume "u = ip \<and> ip \<noteq> []"
    then show ?thesis using number_parts(2) [OF d assms(2) sg] by (simp add: x)
  next
    assume "u = ip @ 46 # fp \<and> fp \<noteq> []"
    then show ?thesis using number_parts(1) [OF d assms(2) sg] by (simp add: x)
  qed
qed

lemma numeral_head: "is_numeral x \<Longrightarrow> \<exists>c x'. x = c # x' \<and> \<not> is_ws c"
proof -
  assume a: "is_numeral x"
  then obtain c x' where x: "x = c # x'" by (cases x) (auto simp: is_numeral_def)
  have "\<not> is_ws c"
  proof (cases "c = 45")
    case True
    then show ?thesis by (simp add: special_chars)
  next
    case False
    with a x have "unsigned_numeral (c # x')" by (simp add: is_numeral_def)
    then obtain ip fp where d: "list_all is_digit ip"
      and u: "(c # x' = ip \<and> ip \<noteq> []) \<or> (c # x' = ip @ 46 # fp \<and> fp \<noteq> [])"
      unfolding unsigned_shape by (elim exE conjE)
    have "is_digit c \<or> c = 46"
    proof (cases ip)
      case Nil
      with u show ?thesis by auto
    next
      case (Cons i ip')
      with u d show ?thesis by auto
    qed
    then show ?thesis by (auto simp: special_chars)
  qed
  with x show ?thesis by blast
qed

lemma skip_ws: "list_all is_ws w \<Longrightarrow> \<not> is_ws c \<Longrightarrow> dropWhile is_ws (w @ c # r) = c # r"
  by (induction w) auto

lemma argument_complete:
  assumes "list_all is_ws w" "is_numeral x"
    and "case r of [] \<Rightarrow> True | c # r' \<Rightarrow> \<not> is_digit c \<and> c \<noteq> 46"
  shows "argument (w @ x @ r) = Some (x, r)"
proof -
  from numeral_head [OF assms(2)] obtain c x' where x: "x = c # x'" "\<not> is_ws c" by (elim exE conjE)
  have "dropWhile is_ws (w @ x @ r) = x @ r"
    using skip_ws [OF assms(1) x(2), of "x' @ r"] by (simp add: x(1))
  then show ?thesis using number_complete [OF assms(2,3)] by (simp add: argument_def)
qed

lemma token_complete: "list_all is_ws w \<Longrightarrow> \<not> is_ws ch \<Longrightarrow> token ch (w @ ch # r) = Some r"
  by (simp add: token_def skip_ws)

lemma argument_sound:
  assumes "argument s = Some (x, r)"
  shows "\<exists>w. s = w @ x @ r \<and> list_all is_ws w \<and> is_numeral x"
proof -
  from assms have n: "number (dropWhile is_ws s) = Some (x, r)" by (simp add: argument_def)
  from number_sound [OF n] have d: "dropWhile is_ws s = x @ r" and nx: "is_numeral x" by simp_all
  from ws_split [of s] obtain w where w: "s = w @ dropWhile is_ws s" "list_all is_ws w"
    by (elim exE conjE)
  have "s = w @ x @ r" by (subst w(1)) (simp only: d)
  with w(2) nx show ?thesis by blast
qed

lemma token_sound:
  assumes "token ch s = Some r"
  shows "\<exists>w. s = w @ ch # r \<and> list_all is_ws w"
proof -
  from assms have d: "dropWhile is_ws s = ch # r"
    by (auto simp: token_def split: list.splits if_splits)
  from ws_split [of s] obtain w where w: "s = w @ dropWhile is_ws s" "list_all is_ws w"
    by (elim exE conjE)
  have "s = w @ ch # r" by (subst w(1)) (simp only: d)
  with w(2) show ?thesis by blast
qed

lemma prefix_length: "length (lit ''camera.position.set('') = 20"
  by (simp add: lit_def)

lemma follower:
  "list_all is_ws w \<Longrightarrow> \<not> is_digit ch \<Longrightarrow> ch \<noteq> 46 \<Longrightarrow>
     (case w @ ch # r of [] \<Rightarrow> True | c # r' \<Rightarrow> \<not> is_digit c \<and> c \<noteq> 46)"
  by (cases w) (auto simp: special_chars)

lemma camera_call_at_complete:
  assumes "well_formed c"
  shows "camera_call_at (call_text c @ a) = Some ((arg_x c, arg_y c, arg_z c), a)"
proof -
  from assms have w: "list_all is_ws (ws1 c)" "list_all is_ws (ws2 c)" "list_all is_ws (ws3 c)"
    "list_all is_ws (ws4 c)" "list_all is_ws (ws5 c)" "list_all is_ws (ws6 c)"
    and n: "is_numeral (arg_x c)" "is_numeral (arg_y c)" "is_numeral (arg_z c)"
    by (simp_all add: well_formed_def)
  define t6 where "t6 = ws6 c @ 41 # a"
  define t5 where "t5 = ws5 c @ arg_z c @ t6"
  define t4 where "t4 = ws4 c @ 44 # t5"
  define t3 where "t3 = ws3 c @ arg_y c @ t4"
  define t2 where "t2 = ws2 c @ 44 # t3"
  define t1 where "t1 = ws1 c @ arg_x c @ t2"
  have ct: "call_text c @ a = lit ''camera.position.set('' @ t1"
    by (simp add: call_text_def t1_def t2_def t3_def t4_def t5_def t6_def)
  have l: "literal (lit ''camera.position.set('') (lit ''camera.position.set('' @ t1) = Some t1"
    using starts_self [of "lit ''camera.position.set(''" t1] by (simp add: literal_def prefix_length)
  have a1: "argument t1 = Some (arg_x c, t2)"
    unfolding t1_def by (rule argument_complete [OF w(1) n(1)])
      (simp add: t2_def follower [OF w(2)] special_chars)
  have k1: "token 44 t2 = Some t3"
    unfolding t2_def by (rule token_complete [OF w(2)]) (simp add: special_chars)
  have a2: "argument t3 = Some (arg_y c, t4)"
    unfolding t3_def by (rule argument_complete [OF w(3) n(2)])
      (simp add: t4_def follower [OF w(4)] special_chars)
  have k2: "token 44 t4 = Some t5"
    unfolding t4_def by (rule token_complete [OF w(4)]) (simp add: special_chars)
  have a3: "argument t5 = Some (arg_z c, t6)"
    unfolding t5_def by (rule argument_complete [OF w(5) n(3)])
      (simp add: t6_def follower [OF w(6)] special_chars)
  have k3: "token 41 t6 = Some a"
    unfolding t6_def by (rule token_complete [OF w(6)]) (simp add: special_chars)
  show ?thesis
    unfolding ct camera_call_at_def by (simp add: l a1 k1 a2 k2 a3 k3)
qed

lemma camera_call_at_sound:
  assumes "camera_call_at s = Some ((x, y, z), rest)"
  shows "\<exists>c. s = call_text c @ rest \<and> well_formed c \<and> arg_x c = x \<and> arg_y c = y \<and> arg_z c = z"
proof -
  from assms obtain t1 t2 t3 t4 t5 t6 where
    h: "literal (lit ''camera.position.set('') s = Some t1" "argument t1 = Some (x, t2)"
      "token 44 t2 = Some t3" "argument t3 = Some (y, t4)" "token 44 t4 = Some t5"
      "argument t5 = Some (z, t6)" "token 41 t6 = Some rest"
    by (auto simp: camera_call_at_def split: option.splits)
  from h(1) have st: "starts (lit ''camera.position.set('') s" and t1: "t1 = drop 20 s"
    by (auto simp: literal_def prefix_length split: if_splits)
  have "s = take 20 s @ drop 20 s" by simp
  moreover have "take 20 s = lit ''camera.position.set(''" using starts_take [OF st] by (simp add: prefix_length)
  ultimately have s: "s = lit ''camera.position.set('' @ t1" by (simp only: t1)
  from argument_sound [OF h(2)] obtain w1 where
    e1: "t1 = w1 @ x @ t2" "list_all is_ws w1" "is_numeral x" by (elim exE conjE)
  from token_sound [OF h(3)] obtain w2 where e2: "t2 = w2 @ 44 # t3" "list_all is_ws w2"
    by (elim exE conjE)
  from argument_sound [OF h(4)] obtain w3 where
    e3: "t3 = w3 @ y @ t4" "list_all is_ws w3" "is_numeral y" by (elim exE conjE)
  from token_sound [OF h(5)] obtain w4 where e4: "t4 = w4 @ 44 # t5" "list_all is_ws w4"
    by (elim exE conjE)
  from argument_sound [OF h(6)] obtain w5 where
    e5: "t5 = w5 @ z @ t6" "list_all is_ws w5" "is_numeral z" by (elim exE conjE)
  from token_sound [OF h(7)] obtain w6 where e6: "t6 = w6 @ 41 # rest" "list_all is_ws w6"
    by (elim exE conjE)
  let ?c = "\<lparr>ws1 = w1, arg_x = x, ws2 = w2, ws3 = w3, arg_y = y, ws4 = w4, ws5 = w5,
             arg_z = z, ws6 = w6\<rparr>"
  have "s = call_text ?c @ rest"
    by (subst s) (simp add: call_text_def e1(1) e2(1) e3(1) e4(1) e5(1) e6(1))
  moreover have "well_formed ?c"
    by (simp add: well_formed_def e1 e2 e3 e4 e5 e6)
  ultimately show ?thesis by (intro exI [of _ ?c]) simp
qed

lemma zoom_unchanged:
  assumes "\<forall>b c a. html = b @ call_text c @ a \<longrightarrow> \<not> well_formed c"
  shows "zoomCamera ops html zoomFactor = html"
proof -
  have "scan camera_call_at html = None"
  proof (rule scan_none, intro allI impI)
    fix k assume "k \<le> length html"
    show "camera_call_at (drop k html) = None"
    proof (rule ccontr)
      assume "camera_call_at (drop k html) \<noteq> None"
      then obtain x y z rest where "camera_call_at (drop k html) = Some ((x, y, z), rest)" by auto
      from camera_call_at_sound [OF this] obtain c where
        c: "drop k html = call_text c @ rest" "well_formed c" by (elim exE conjE)
      have "html = take k html @ drop k html" by simp
      then have "html = take k html @ call_text c @ rest" by (simp only: c(1))
      with assms c(2) show False by blast
    qed
  qed
  then show ?thesis by (subst zoomCamera_unfold) simp
qed

lemma zoom_first_call:
  assumes wf: "well_formed c"
    and first: "\<forall>b' c' a'. b @ call_text c @ a = b' @ call_text c' @ a' \<and> well_formed c'
                  \<longrightarrow> length b \<le> length b'"
  shows "zoomCamera ops (b @ call_text c @ a) zoomFactor
           = b @ new_call ops zoomFactor (arg_x c) (arg_y c) (arg_z c) @ zoomCamera ops a zoomFactor"
proof -
  let ?html = "b @ call_text c @ a"
  have none: "\<forall>k < length b. camera_call_at (drop k (b @ call_text c @ a)) = None"
  proof (intro allI impI)
    fix k assume k: "k < length b"
    show "camera_call_at (drop k ?html) = None"
    proof (rule ccontr)
      assume "camera_call_at (drop k ?html) \<noteq> None"
      then obtain x y z rest where "camera_call_at (drop k ?html) = Some ((x, y, z), rest)" by auto
      from camera_call_at_sound [OF this] obtain c' where
        c: "drop k ?html = call_text c' @ rest" "well_formed c'" by (elim exE conjE)
      have "?html = take k ?html @ drop k ?html" by (rule append_take_drop_id [symmetric])
      then have "?html = take k ?html @ call_text c' @ rest" by (simp only: c(1))
      with first c(2) have "length b \<le> length (take k ?html)" by blast
      with k show False by simp
    qed
  qed
  have "scan camera_call_at (b @ (call_text c @ a)) = Some (b, (arg_x c, arg_y c, arg_z c), a)"
    by (rule scan_first [of camera_call_at "call_text c @ a" "((arg_x c, arg_y c, arg_z c), a)" b,
          OF camera_call_at_complete [OF wf] none])
  then show ?thesis by (subst zoomCamera_unfold) simp
qed

text \<open>
  C5. \<open>zoomCamera\<close> returns a text without a call as it is. In a text with a call, the
  first call is replaced by \<open>camera.position.set(X, Y, Z)\<close>, where \<open>X\<close>, \<open>Y\<close> and \<open>Z\<close>
  print the products of the three literals with the factor; the text before the call is
  kept, and the text after it is rescaled in the same way, so every call is rescaled,
  each on its own. The statement holds for any numbers with a product and a printing
  function, the floats of JavaScript among them.
\<close>

theorem zoomCamera_rescales_calls:
  "((\<forall>b c a. html = b @ call_text c @ a \<longrightarrow> \<not> well_formed c) \<longrightarrow>
      zoomCamera ops html zoomFactor = html)
   \<and> (well_formed c
        \<and> (\<forall>b' c' a'. b @ call_text c @ a = b' @ call_text c' @ a' \<and> well_formed c'
              \<longrightarrow> length b \<le> length b') \<longrightarrow>
        zoomCamera ops (b @ call_text c @ a) zoomFactor
          = b @ lit ''camera.position.set(''
              @ toString ops (times ops (parseFloat ops (arg_x c)) zoomFactor) @ lit '', ''
              @ toString ops (times ops (parseFloat ops (arg_y c)) zoomFactor) @ lit '', ''
              @ toString ops (times ops (parseFloat ops (arg_z c)) zoomFactor) @ lit '')''
              @ zoomCamera ops a zoomFactor)"
  using zoom_unchanged [of html ops zoomFactor] zoom_first_call [of c b a ops zoomFactor]
  by (simp add: new_call_def scaled_def)

text \<open>
  The example of the specification, \<open>camera.position.set(10, 20, -30)\<close> with factor 0.5;
  a text without a call; and a text with two calls.
\<close>

theorem zoomCamera_rescales_calls_witness:
  "zoomCamera decimal_ops (lit ''camera.position.set(10, 20, -30)'') (1 / 2)
     = lit ''camera.position.set(5, 10, -15)''
   \<and> zoomCamera decimal_ops (lit ''scene.add(mesh);'') (1 / 2) = lit ''scene.add(mesh);''
   \<and> zoomCamera decimal_ops
        (lit ''camera.position.set(10, 20, -30); camera.position.set( 20,10 , 10 )'') (1 / 2)
      = lit ''camera.position.set(5, 10, -15); camera.position.set(10, 5, 5)''"
proof -
  have two: "zoomCamera decimal_ops
        (lit ''camera.position.set(10, 20, -30); camera.position.set( 20,10 , 10 )'') (1 / 2)
      = lit ''camera.position.set(5, 10, -15); camera.position.set(10, 5, 5)''"
    by (simp add: zoomCamera_unfold camera_call_at_def literal_def argument_def token_def
        number_def new_call_def scaled_def decimal_ops_def is_ws_def is_digit_def lit_def Let_def)
  have wf: "well_formed example_call"
    by (simp add: well_formed_def example_call_def is_numeral_def unsigned_numeral_def
        is_digit_def is_ws_def lit_def)
  have ct: "call_text example_call = lit ''camera.position.set(10, 20, -30)''"
    by (simp add: call_text_def example_call_def lit_def)
  have first: "\<forall>b' c' a'. [] @ call_text example_call @ [] = b' @ call_text c' @ a' \<and> well_formed c'
              \<longrightarrow> length ([] :: jsstring) \<le> length b'"
    by simp
  have e: "zoomCamera decimal_ops [] (1 / 2) = []"
    by (subst zoomCamera_unfold) (simp add: camera_call_at_def literal_def lit_def)
  have none: "\<forall>b c a. lit ''scene.add(mesh);'' = b @ call_text c @ a \<longrightarrow> \<not> well_formed c"
  proof (intro allI impI)
    fix b c a assume h: "lit ''scene.add(mesh);'' = b @ call_text c @ a"
    have "length (b @ call_text c @ a) \<ge> 20" by (simp add: call_text_def prefix_length)
    moreover have "length (lit ''scene.add(mesh);'') = 16" by (simp add: lit_def)
    ultimately show "\<not> well_formed c" using h by simp
  qed
  from zoomCamera_rescales_calls [of "lit ''scene.add(mesh);''" decimal_ops "1 / 2" example_call "[]" "[]"]
    wf first none
  have "zoomCamera decimal_ops (lit ''scene.add(mesh);'') (1 / 2) = lit ''scene.add(mesh);''"
    and "zoomCamera decimal_ops (call_text example_call) (1 / 2)
          = lit ''camera.position.set(''
              @ toString decimal_ops (times decimal_ops (parseFloat decimal_ops (arg_x example_call)) (1 / 2)) @ lit '', ''
              @ toString decimal_ops (times decimal_ops (parseFloat decimal_ops (arg_y example_call)) (1 / 2)) @ lit '', ''
              @ toString decimal_ops (times decimal_ops (parseFloat decimal_ops (arg_z example_call)) (1 / 2)) @ lit '')''"
    by (simp_all add: e)
  then have "zoomCamera decimal_ops (lit ''camera.position.set(10, 20, -30)'') (1 / 2)
       = lit ''camera.position.set(5, 10, -15)''
     \<and> zoomCamera decimal_ops (lit ''scene.add(mesh);'') (1 / 2) = lit ''scene.add(mesh);''"
    unfolding ct by (simp add: decimal_ops_def example_call_def lit_def)
  with two show ?thesis by simp
qed

end
